theory Spec2Isabelle
  imports Complex_Main
begin

section \<open>Errors, numbers and arrays\<close>

text \<open>
  The exceptions that \<^verbatim>\<open>Lab_2_4_LR2.py\<close> and the numpy primitives it calls can raise.
  \<open>InvalidMethod\<close> and \<open>NotFitted\<close> are the two \<^verbatim>\<open>ValueError\<close>s raised by \<^verbatim>\<open>fit\<close> and
  \<^verbatim>\<open>predict\<close> themselves; \<open>ShapeError\<close> is the \<^verbatim>\<open>ValueError\<close> of numpy for operands whose
  shapes do not fit (and for a negative dimension); \<open>LinAlgError\<close> is raised by
  \<^verbatim>\<open>np.linalg.inv\<close>; \<open>ZeroDivisionError\<close> by Python's own division; \<open>IndexError\<close> by an
  index out of bounds.
\<close>

datatype error =
    InvalidMethod string
  | NotFitted
  | ShapeError
  | LinAlgError
  | ZeroDivisionError
  | IndexError

text \<open>
  Array entries are exact reals. A numpy floating-point division or mean can still
  leave the finite numbers (division by zero gives \<^verbatim>\<open>inf\<close> or \<^verbatim>\<open>nan\<close> with a warning, not
  an exception), so the results of those operations are values of \<open>npfloat\<close>.
\<close>

datatype npfloat = Fin real | PInf | NInf | NaN

definition np_div :: "real \<Rightarrow> real \<Rightarrow> npfloat" where
  "np_div a b =
     (if b \<noteq> 0 then Fin (a / b)
      else if 0 < a then PInf
      else if a < 0 then NInf
      else NaN)"



type_synonym vec = "real list"

definition np_mean :: "vec \<Rightarrow> npfloat" where
  "np_mean xs = np_div (sum_list xs) (real (length xs))"

text \<open>
  A two-dimensional array of shape \<open>(length (rows M), ncols M)\<close>. The number of columns
  is kept apart from the rows because an array with no rows still has a column count.
\<close>

record 'a array2 =
  ncols :: nat
  rows :: "'a list list"

type_synonym matrix = "real array2"

definition nrows :: "'a array2 \<Rightarrow> nat" where
  "nrows M = length (rows M)"

definition wf_matrix :: "'a array2 \<Rightarrow> bool" where
  "wf_matrix M = list_all (\<lambda>r. length r = ncols M) (rows M)"

text \<open>A feature input is a one-dimensional or a two-dimensional array.\<close>

datatype ndarray = Arr1 vec | Arr2 matrix

definition wf_ndarray :: "ndarray \<Rightarrow> bool" where
  "wf_ndarray X = (case X of Arr1 v \<Rightarrow> True | Arr2 M \<Rightarrow> wf_matrix M)"

subsection \<open>The numpy primitives\<close>

definition dot :: "vec \<Rightarrow> vec \<Rightarrow> real" where
  "dot u v = sum_list (map2 (*) u v)"

definition column :: "'a list list \<Rightarrow> nat \<Rightarrow> 'a list" where
  "column rs j = map (\<lambda>r. r ! j) rs"

text \<open>\<^verbatim>\<open>X.T\<close>\<close>

definition transpose_m :: "matrix \<Rightarrow> matrix" where
  "transpose_m M = \<lparr>ncols = nrows M, rows = map (column (rows M)) [0..<ncols M]\<rparr>"

text \<open>\<^verbatim>\<open>A.dot(B)\<close> for two-dimensional \<open>A\<close> and \<open>B\<close>.\<close>

definition dot_mm :: "matrix \<Rightarrow> matrix \<Rightarrow> error + matrix" where
  "dot_mm A B =
     (if ncols A = nrows B
      then Inr \<lparr>ncols = ncols B,
                rows = map (\<lambda>r. map (\<lambda>j. dot r (column (rows B) j)) [0..<ncols B]) (rows A)\<rparr>
      else Inl ShapeError)"

text \<open>\<^verbatim>\<open>A.dot(v)\<close> for two-dimensional \<open>A\<close> and one-dimensional \<open>v\<close>.\<close>

definition dot_mv :: "matrix \<Rightarrow> vec \<Rightarrow> error + vec" where
  "dot_mv A v =
     (if ncols A = length v then Inr (map (\<lambda>r. dot r v) (rows A)) else Inl ShapeError)"

text \<open>
  \<^verbatim>\<open>u - v\<close> for one-dimensional arrays, with numpy's broadcasting: equal lengths
  subtract elementwise, an array of length one is stretched to the other's length, any other
  pair of lengths raises.
\<close>

definition np_sub :: "vec \<Rightarrow> vec \<Rightarrow> error + vec" where
  "np_sub u v =
     (if length u = length v then Inr (map2 (-) u v)
      else if length u = 1 then Inr (map (\<lambda>y. hd u - y) v)
      else if length v = 1 then Inr (map (\<lambda>x. x - hd v) u)
      else Inl ShapeError)"

text \<open>\<^verbatim>\<open>X.reshape(-1, 1)\<close> of a one-dimensional array.\<close>

definition reshape_col :: "vec \<Rightarrow> matrix" where
  "reshape_col v = \<lparr>ncols = 1, rows = map (\<lambda>x. [x]) v\<rparr>"

text \<open>
  \<^verbatim>\<open>np.insert(X, 0, 1, axis=1)\<close> and \<^verbatim>\<open>np.c_[np.ones((X.shape[0], 1)), X]\<close>: a column of
  ones in front of a two-dimensional array.
\<close>

definition insert_ones :: "matrix \<Rightarrow> matrix" where
  "insert_ones M = \<lparr>ncols = Suc (ncols M), rows = map (\<lambda>r. 1 # r) (rows M)\<rparr>"

subsection \<open>Matrix inversion\<close>

text \<open>
  \<^verbatim>\<open>np.linalg.inv\<close> is library code; over exact arithmetic it is Gauss-Jordan elimination
  on the rows of \<open>[A | I]\<close>. For each column \<open>j\<close> the first row at or below \<open>j\<close> with a non-zero
  entry in that column becomes the pivot row (in exact arithmetic the choice of the pivot does
  not change the result); no such row means the matrix is singular, and numpy raises
  \<^verbatim>\<open>LinAlgError\<close>. A matrix that is not square raises \<^verbatim>\<open>LinAlgError\<close> too.
\<close>

definition identity_rows :: "nat \<Rightarrow> vec list" where
  "identity_rows n = map (\<lambda>i. map (\<lambda>j. if i = j then 1 else 0) [0..<n]) [0..<n]"

definition vscale :: "real \<Rightarrow> vec \<Rightarrow> vec" where
  "vscale c v = map (\<lambda>x. c * x) v"

definition vsub :: "vec \<Rightarrow> vec \<Rightarrow> vec" where
  "vsub u v = map2 (-) u v"

definition gj_step :: "nat \<Rightarrow> vec list \<Rightarrow> vec list option" where
  "gj_step j rs =
     (case find (\<lambda>i. rs ! i ! j \<noteq> 0) [j..<length rs] of
        None \<Rightarrow> None
      | Some p \<Rightarrow>
          let piv = vscale (1 / (rs ! p ! j)) (rs ! p);
              sw = rs[p := rs ! j, j := piv]
          in Some (map (\<lambda>k. if k = j then piv else vsub (sw ! k) (vscale (sw ! k ! j) piv))
                     [0..<length rs]))"

fun gj_iter :: "nat \<Rightarrow> nat \<Rightarrow> vec list \<Rightarrow> vec list option" where
  "gj_iter 0 j rs = Some rs"
| "gj_iter (Suc k) j rs =
     (case gj_step j rs of None \<Rightarrow> None | Some rs' \<Rightarrow> gj_iter k (Suc j) rs')"

definition linalg_inv :: "matrix \<Rightarrow> error + matrix" where
  "linalg_inv A =
     (if nrows A \<noteq> ncols A then Inl LinAlgError
      else case gj_iter (ncols A) 0 (map2 (@) (rows A) (identity_rows (ncols A))) of
             None \<Rightarrow> Inl LinAlgError
           | Some rs \<Rightarrow> Inr \<lparr>ncols = ncols A, rows = map (drop (ncols A)) rs\<rparr>)"

section \<open>The regressor\<close>

text \<open>
  The state a call can change: the two attributes of the \<^verbatim>\<open>LinearRegressor\<close> object
  (\<open>None\<close> until a fit stores them) and the lines printed so far, each kept as the epoch
  and the loss it reports.
\<close>

record state =
  coefficients :: "vec option"
  intercept :: "real option"
  stdout :: "(nat \<times> npfloat) list"

definition init :: "state" where
  "init = \<lparr>coefficients = None, intercept = None, stdout = []\<rparr>"

subsection \<open>\<^verbatim>\<open>fit_multiple\<close>\<close>

definition fit_multiple :: "matrix \<Rightarrow> vec \<Rightarrow> state \<Rightarrow> (error + unit) \<times> state" where
  "fit_multiple X y s =
     (case dot_mm (transpose_m X) X of Inl e \<Rightarrow> (Inl e, s) | Inr XtX \<Rightarrow>
      case linalg_inv XtX of Inl e \<Rightarrow> (Inl e, s) | Inr B \<Rightarrow>
      case dot_mm B (transpose_m X) of Inl e \<Rightarrow> (Inl e, s) | Inr P \<Rightarrow>
      case dot_mv P y of Inl e \<Rightarrow> (Inl e, s) | Inr theta \<Rightarrow>
      case theta of
        [] \<Rightarrow> (Inl IndexError, s)
      | t0 # ts \<Rightarrow> (Inr (), s\<lparr>intercept := Some t0, coefficients := Some ts\<rparr>))"

subsection \<open>\<^verbatim>\<open>fit_gradient_descent\<close>\<close>

text \<open>
  The variables of the loop: the two attributes being updated, the two histories, and
  the printed lines.
\<close>

record gd_vars =
  gd_intercept :: real
  gd_coefficients :: vec
  loss_history :: "npfloat list"
  w_history :: "vec list"
  gd_stdout :: "(nat \<times> npfloat) list"

text \<open>
  One pass through the loop body. \<^verbatim>\<open>2 / m\<close> is a division of Python integers and raises
  on \<open>m = 0\<close>; it is evaluated before \<^verbatim>\<open>X.T.dot(error)\<close>. Every operation that can raise
  comes before the two updates. \<^verbatim>\<open>gradients[0]\<close> raises on an empty gradient; the in-place
  subtraction has operands of equal length whenever the first product of the body succeeded.
\<close>

definition gd_epoch :: "matrix \<Rightarrow> vec \<Rightarrow> real \<Rightarrow> nat \<Rightarrow> gd_vars \<Rightarrow> error + gd_vars" where
  "gd_epoch X y learning_rate epoch g =
     (case dot_mv X (gd_intercept g # gd_coefficients g) of Inl e \<Rightarrow> Inl e | Inr predictions \<Rightarrow>
      case np_sub predictions y of Inl e \<Rightarrow> Inl e | Inr err \<Rightarrow>
      if length y = 0 then Inl ZeroDivisionError else
      case dot_mv (transpose_m X) err of Inl e \<Rightarrow> Inl e | Inr xte \<Rightarrow>
      case vscale (2 / real (length y)) xte of
        [] \<Rightarrow> Inl IndexError
      | g0 # gs \<Rightarrow>
          let b = gd_intercept g - learning_rate * g0;
              w = vsub (gd_coefficients g) (vscale learning_rate gs);
              mse = np_mean (map (\<lambda>e. e\<^sup>2) err)
          in Inr \<lparr>gd_intercept = b, gd_coefficients = w,
                   loss_history = loss_history g @ [mse],
                   w_history = w_history g @ [b # w],
                   gd_stdout = (if epoch mod 100 = 0 then gd_stdout g @ [(epoch, mse)]
                                else gd_stdout g)\<rparr>)"

text \<open>
  \<^verbatim>\<open>for epoch in range(iterations)\<close>: an exception leaves the loop with the variables as the
  last completed pass left them.
\<close>

fun gd_loop :: "matrix \<Rightarrow> vec \<Rightarrow> real \<Rightarrow> nat list \<Rightarrow> gd_vars \<Rightarrow> (error + unit) \<times> gd_vars" where
  "gd_loop X y learning_rate [] g = (Inr (), g)"
| "gd_loop X y learning_rate (epoch # epochs) g =
     (case gd_epoch X y learning_rate epoch g of
        Inl e \<Rightarrow> (Inl e, g)
      | Inr g' \<Rightarrow> gd_loop X y learning_rate epochs g')"

definition store_vars :: "gd_vars \<Rightarrow> state" where
  "store_vars g = \<lparr>coefficients = Some (gd_coefficients g), intercept = Some (gd_intercept g),
                   stdout = gd_stdout g\<rparr>"

text \<open>
  The random generator is an input: \<open>rnd i\<close> is its \<open>i\<close>-th draw, a number of \<open>[0, 1)\<close>.
  \<^verbatim>\<open>np.random.rand(X.shape[1] - 1)\<close> takes the first \<open>ncols X - 1\<close> draws and raises on a
  negative dimension; \<^verbatim>\<open>np.random.rand()\<close> takes the next one.
\<close>

definition initial_vars :: "matrix \<Rightarrow> (nat \<Rightarrow> real) \<Rightarrow> state \<Rightarrow> gd_vars" where
  "initial_vars X rnd s =
     \<lparr>gd_intercept = rnd (ncols X - 1) * 0.01,
      gd_coefficients = map (\<lambda>i. rnd i * 0.01) [0..<ncols X - 1],
      loss_history = [], w_history = [], gd_stdout = stdout s\<rparr>"

definition fit_gradient_descent ::
  "matrix \<Rightarrow> vec \<Rightarrow> real \<Rightarrow> int \<Rightarrow> (nat \<Rightarrow> real) \<Rightarrow> state
     \<Rightarrow> (error + npfloat list \<times> vec list) \<times> state" where
  "fit_gradient_descent X y learning_rate iterations rnd s =
     (if ncols X = 0 then (Inl ShapeError, s)
      else case gd_loop X y learning_rate [0..<nat iterations] (initial_vars X rnd s) of
             (Inl e, g) \<Rightarrow> (Inl e, store_vars g)
           | (Inr u, g) \<Rightarrow> (Inr (loss_history g, w_history g), store_vars g))"

subsection \<open>\<^verbatim>\<open>fit\<close>\<close>

text \<open>What \<^verbatim>\<open>fit\<close> returns: \<^verbatim>\<open>None\<close>, or the pair of histories.\<close>

datatype fit_result = NoneResult | Histories "npfloat list" "vec list"

definition as_2d :: "ndarray \<Rightarrow> matrix" where
  "as_2d X = (case X of Arr1 v \<Rightarrow> reshape_col v | Arr2 M \<Rightarrow> M)"

definition fit ::
  "ndarray \<Rightarrow> vec \<Rightarrow> string \<Rightarrow> real \<Rightarrow> int \<Rightarrow> (nat \<Rightarrow> real) \<Rightarrow> state
     \<Rightarrow> (error + fit_result) \<times> state" where
  "fit X y method learning_rate iterations rnd s =
     (if method \<notin> set [''least_squares'', ''gradient_descent'']
      then (Inl (InvalidMethod method), s)
      else
        let X_with_bias = insert_ones (as_2d X)
        in if method = ''least_squares'' then
             (case fit_multiple X_with_bias y s of
                (Inl e, s') \<Rightarrow> (Inl e, s')
              | (Inr u, s') \<Rightarrow> (Inr NoneResult, s'))
           else if method = ''gradient_descent'' then
             (case fit_gradient_descent X_with_bias y learning_rate iterations rnd s of
                (Inl e, s') \<Rightarrow> (Inl e, s')
              | (Inr (l, w), s') \<Rightarrow> (Inr (Histories l w), s'))
           else (Inr NoneResult, s))"

subsection \<open>\<^verbatim>\<open>predict\<close>\<close>

text \<open>Both branches of the source build the same product; \<^verbatim>\<open>predict\<close> changes no state.\<close>

definition predict :: "ndarray \<Rightarrow> state \<Rightarrow> error + vec" where
  "predict X s =
     (case (coefficients s, intercept s) of
        (Some w, Some b) \<Rightarrow>
          (case X of
             Arr1 v \<Rightarrow> dot_mv (insert_ones (reshape_col v)) (b # w)
           | Arr2 M \<Rightarrow> dot_mv (insert_ones M) (b # w))
      | _ \<Rightarrow> Inl NotFitted)"

section \<open>\<^verbatim>\<open>evaluate_regression\<close>\<close>




section \<open>\<^verbatim>\<open>one_hot_encode\<close>\<close>











section \<open>The specification's own formulas\<close>

subsection \<open>Linear algebra\<close>

text \<open>
  The \<open>i\<close>-th unit vector of length \<open>n\<close>, the identity matrix, and the matrix \<open>X\<^sup>T X\<close> written
  out entry by entry: entry \<open>(i, j)\<close> is the inner product of columns \<open>i\<close> and \<open>j\<close> of \<open>X\<close>.
\<close>

definition unit_vec :: "nat \<Rightarrow> nat \<Rightarrow> vec" where
  "unit_vec n i = map (\<lambda>j. if i = j then 1 else 0) [0..<n]"

definition identity_m :: "nat \<Rightarrow> matrix" where
  "identity_m n = \<lparr>ncols = n, rows = identity_rows n\<rparr>"

definition gram :: "matrix \<Rightarrow> matrix" where
  "gram X = \<lparr>ncols = ncols X,
             rows = map (\<lambda>i. map (\<lambda>j. dot (column (rows X) i) (column (rows X) j)) [0..<ncols X])
                      [0..<ncols X]\<rparr>"

text \<open>
  A matrix is singular when it sends some non-zero vector to zero, and has full column
  rank when it sends no non-zero vector to zero. (\<open>dot_mv A w\<close> returns a result only for a
  \<open>w\<close> with one entry for each column.)
\<close>

definition singular :: "matrix \<Rightarrow> bool" where
  "singular A = (\<exists>w. w \<noteq> replicate (ncols A) 0 \<and> dot_mv A w = Inr (replicate (nrows A) 0))"

definition full_column_rank :: "matrix \<Rightarrow> bool" where
  "full_column_rank X =
     (\<forall>w. dot_mv X w = Inr (replicate (nrows X) 0) \<longrightarrow> w = replicate (ncols X) 0)"

text \<open>
  The invariant of the elimination: the first \<open>j\<close> columns of the rows are the first \<open>j\<close>
  columns of the identity.
\<close>

definition unit_cols :: "nat \<Rightarrow> vec list \<Rightarrow> bool" where
  "unit_cols j rs = (\<forall>c<j. \<forall>k<length rs. rs ! k ! c = (if k = c then 1 else 0))"

subsection \<open>Gradient descent as the specification words it\<close>

text \<open>
  These definitions follow the specification, not the source: the error vector
  \<open>X \<cdot> [intercept, coefficients] - y\<close>, the gradient \<open>(2 / m) \<cdot> X\<^sup>T \<cdot> error\<close> with \<open>m\<close> the
  number of observations, the update that subtracts \<open>learning_rate \<times> gradient[0]\<close> from the
  intercept and \<open>learning_rate \<times> gradient[1:]\<close> from the coefficients, the mean squared error,
  and the parameters after \<open>k\<close> updates. A parameter vector is \<open>intercept # coefficients\<close>.
\<close>

definition spec_error :: "matrix \<Rightarrow> vec \<Rightarrow> vec \<Rightarrow> vec" where
  "spec_error X y theta = map2 (-) (map (\<lambda>r. dot r theta) (rows X)) y"

definition spec_gradient :: "matrix \<Rightarrow> vec \<Rightarrow> vec \<Rightarrow> vec" where
  "spec_gradient X y theta =
     map (\<lambda>j. 2 / real (length y) * dot (column (rows X) j) (spec_error X y theta)) [0..<ncols X]"

definition spec_update :: "real \<Rightarrow> matrix \<Rightarrow> vec \<Rightarrow> vec \<Rightarrow> vec" where
  "spec_update learning_rate X y theta =
     (hd theta - learning_rate * hd (spec_gradient X y theta))
       # map2 (\<lambda>c g. c - learning_rate * g) (tl theta) (tl (spec_gradient X y theta))"

definition spec_mse :: "matrix \<Rightarrow> vec \<Rightarrow> vec \<Rightarrow> real" where
  "spec_mse X y theta = sum_list (map (\<lambda>e. e\<^sup>2) (spec_error X y theta)) / real (length y)"

fun spec_params :: "real \<Rightarrow> matrix \<Rightarrow> vec \<Rightarrow> vec \<Rightarrow> nat \<Rightarrow> vec" where
  "spec_params learning_rate X y theta0 0 = theta0"
| "spec_params learning_rate X y theta0 (Suc k) =
     spec_update learning_rate X y (spec_params learning_rate X y theta0 k)"

text \<open>The parameters the source starts from, and the parameters held by the loop variables.\<close>

definition initial_theta :: "matrix \<Rightarrow> (nat \<Rightarrow> real) \<Rightarrow> vec" where
  "initial_theta X rnd = (rnd (ncols X - 1) * 0.01) # map (\<lambda>i. rnd i * 0.01) [0..<ncols X - 1]"

definition theta_of :: "gd_vars \<Rightarrow> vec" where
  "theta_of g = gd_intercept g # gd_coefficients g"

subsection \<open>One-hot encoding as the specification words it\<close>




section \<open>Properties of \<^verbatim>\<open>fit\<close>'s dispatch and of \<^verbatim>\<open>predict\<close>\<close>

text \<open>
  Claim C5. A method tag other than \<open>''least_squares''\<close> and \<open>''gradient_descent''\<close> makes
  \<open>fit\<close> raise the invalid-argument error at once, whatever \<open>X\<close> and \<open>y\<close> are (nothing is
  computed from them, so not even ill-shaped inputs raise anything else), and the state it
  leaves is the state it was given.
\<close>

theorem fit_invalid_method:
  "method \<noteq> ''least_squares'' \<Longrightarrow> method \<noteq> ''gradient_descent'' \<Longrightarrow>
   fit X y method learning_rate iterations rnd s = (Inl (InvalidMethod method), s)"
  by (simp add: fit_def)

theorem fit_invalid_method_witness:
  "''invalid'' \<noteq> ''least_squares'' \<and> ''invalid'' \<noteq> ''gradient_descent'' \<and>
   fit (Arr1 [1, 2]) [2, 4] ''invalid'' 0.01 1000 (\<lambda>i. 0)
       \<lparr>coefficients = Some [2], intercept = Some 0, stdout = []\<rparr>
     = (Inl (InvalidMethod ''invalid''),
        \<lparr>coefficients = Some [2], intercept = Some 0, stdout = []\<rparr>)"
  using fit_invalid_method [of "''invalid''" "Arr1 [1, 2]" "[2, 4]" "0.01" 1000 "\<lambda>i. 0"
       "\<lparr>coefficients = Some [2], intercept = Some 0, stdout = []\<rparr>"]
  by simp

text \<open>
  Claim C4. On a fitted model \<open>predict\<close> returns, for a one-dimensional input (one feature, so
  one coefficient) and for a two-dimensional input (as many columns as coefficients) alike,
  the product of \<open>[1 | X]\<close> with \<open>[intercept, coefficients]\<close>: one entry
  \<open>intercept + row \<bullet> coefficients\<close> for each row of the input, in a one-dimensional array
  as long as the input has rows.
\<close>

theorem predict_bias_product:
  assumes "coefficients s = Some w" and "intercept s = Some b"
    and "case X of Arr1 v \<Rightarrow> length w = 1 | Arr2 M \<Rightarrow> length w = ncols M"
  shows "predict X s = Inr (map (\<lambda>r. dot (1 # r) (b # w)) (rows (as_2d X))) \<and>
         (\<forall>r\<in>set (rows (as_2d X)). dot (1 # r) (b # w) = b + dot r w) \<and>
         length (map (\<lambda>r. dot (1 # r) (b # w)) (rows (as_2d X))) = nrows (as_2d X)"
  using assms
  by (auto simp: predict_def as_2d_def dot_mv_def insert_ones_def reshape_col_def dot_def
      nrows_def o_def split: ndarray.splits)

theorem predict_bias_product_witness:
  "coefficients \<lparr>coefficients = Some [2, 3], intercept = Some 1, stdout = []\<rparr> = Some [2, 3] \<and>
   intercept \<lparr>coefficients = Some [2, 3], intercept = Some 1, stdout = []\<rparr> = Some 1 \<and>
   length [2, 3 :: real] = ncols \<lparr>ncols = 2, rows = [[1, 1], [0, 2 :: real]]\<rparr> \<and>
   predict (Arr2 \<lparr>ncols = 2, rows = [[1, 1], [0, 2]]\<rparr>)
     \<lparr>coefficients = Some [2, 3], intercept = Some 1, stdout = []\<rparr> = Inr [6, 7] \<and>
   length [2 :: real] = 1 \<and>
   predict (Arr1 [5, 0, 1]) \<lparr>coefficients = Some [2], intercept = Some 0, stdout = []\<rparr>
     = Inr [10, 0, 2]"
  using predict_bias_product [of "\<lparr>coefficients = Some [2, 3], intercept = Some 1, stdout = []\<rparr>"
      "[2, 3]" 1 "Arr2 \<lparr>ncols = 2, rows = [[1, 1], [0, 2]]\<rparr>"]
    predict_bias_product [of "\<lparr>coefficients = Some [2], intercept = Some 0, stdout = []\<rparr>"
      "[2]" 0 "Arr1 [5, 0, 1]"]
  by (simp add: as_2d_def reshape_col_def dot_def)

section \<open>Properties of \<^verbatim>\<open>evaluate_regression\<close>\<close>








section \<open>Properties of gradient descent\<close>

lemma length_spec_gradient: "length (spec_gradient X y theta) = ncols X"
  by (simp add: spec_gradient_def)

lemma length_spec_update:
  "length theta = ncols X \<Longrightarrow> 0 < ncols X \<Longrightarrow> length (spec_update lr X y theta) = ncols X"
  by (simp add: spec_update_def length_spec_gradient)

lemma length_spec_params:
  "length theta0 = ncols X \<Longrightarrow> 0 < ncols X \<Longrightarrow> length (spec_params lr X y theta0 k) = ncols X"
  by (induction k) (simp_all add: length_spec_update)

lemma vsub_vscale_map2: "vsub u (vscale c v) = map2 (\<lambda>a g. a - c * g) u v"
  by (induction u arbitrary: v) (auto simp: vsub_def vscale_def split: list.splits, case_tac v, auto)

lemma gd_epoch_spec:
  assumes "Suc (length (gd_coefficients g)) = ncols X" and "length y = nrows X" and "0 < length y"
  shows "gd_epoch X y lr epoch g =
     Inr \<lparr>gd_intercept = hd (spec_update lr X y (theta_of g)),
          gd_coefficients = tl (spec_update lr X y (theta_of g)),
          loss_history = loss_history g @ [Fin (spec_mse X y (theta_of g))],
          w_history = w_history g @ [spec_update lr X y (theta_of g)],
          gd_stdout = (if epoch mod 100 = 0
                       then gd_stdout g @ [(epoch, Fin (spec_mse X y (theta_of g)))]
                       else gd_stdout g)\<rparr>"
proof -
  let ?th = "theta_of g"
  have p: "dot_mv X ?th = Inr (map (\<lambda>r. dot r ?th) (rows X))"
    using assms(1) by (simp add: dot_mv_def theta_of_def)
  have e: "np_sub (map (\<lambda>r. dot r ?th) (rows X)) y = Inr (spec_error X y ?th)"
    using assms(2) by (simp add: np_sub_def spec_error_def nrows_def)
  have le: "length (spec_error X y ?th) = nrows X"
    using assms(2) by (simp add: spec_error_def nrows_def)
  have x: "dot_mv (transpose_m X) (spec_error X y ?th)
      = Inr (map (\<lambda>j. dot (column (rows X) j) (spec_error X y ?th)) [0..<ncols X])"
    by (simp add: dot_mv_def transpose_m_def le o_def)
  have g: "vscale (2 / real (length y)) (map (\<lambda>j. dot (column (rows X) j) (spec_error X y ?th)) [0..<ncols X])
      = spec_gradient X y ?th"
    by (simp add: vscale_def spec_gradient_def o_def)
  have ne: "spec_gradient X y ?th \<noteq> []"
    using assms(1) length_spec_gradient [of X y ?th] by auto
  then obtain g0 gs where gg: "spec_gradient X y ?th = g0 # gs"
    by (cases "spec_gradient X y ?th") auto
  have m: "np_mean (map (\<lambda>e. e\<^sup>2) (spec_error X y ?th)) = Fin (spec_mse X y ?th)"
    using assms(2,3) by (simp add: np_mean_def np_div_def spec_mse_def le)
  have u: "spec_update lr X y ?th = (gd_intercept g - lr * g0) # vsub (gd_coefficients g) (vscale lr gs)"
    using gg by (simp add: spec_update_def theta_of_def vsub_vscale_map2)
  show ?thesis
    unfolding gd_epoch_def theta_of_def [symmetric]
    using assms(3) by (simp add: p e x g gg m u Let_def)
qed

lemma gd_loop_spec:
  assumes "Suc (length (gd_coefficients g)) = ncols X" and "length y = nrows X" and "0 < length y"
  shows "\<exists>g'. gd_loop X y lr epochs g = (Inr (), g') \<and>
     theta_of g' = spec_params lr X y (theta_of g) (length epochs) \<and>
     loss_history g' = loss_history g @
        map (\<lambda>i. Fin (spec_mse X y (spec_params lr X y (theta_of g) i))) [0..<length epochs] \<and>
     w_history g' = w_history g @
        map (\<lambda>i. spec_params lr X y (theta_of g) (Suc i)) [0..<length epochs]"
  using assms(1)
proof (induction epochs arbitrary: g)
  case Nil
  then show ?case by simp
next
  case (Cons e es)
  let ?g1 = "\<lparr>gd_intercept = hd (spec_update lr X y (theta_of g)),
          gd_coefficients = tl (spec_update lr X y (theta_of g)),
          loss_history = loss_history g @ [Fin (spec_mse X y (theta_of g))],
          w_history = w_history g @ [spec_update lr X y (theta_of g)],
          gd_stdout = (if e mod 100 = 0
                       then gd_stdout g @ [(e, Fin (spec_mse X y (theta_of g)))]
                       else gd_stdout g)\<rparr>"
  have st: "gd_epoch X y lr e g = Inr ?g1"
    using gd_epoch_spec [OF Cons.prems assms(2,3)] .
  have lu: "length (spec_update lr X y (theta_of g)) = ncols X"
    using Cons.prems by (intro length_spec_update) (auto simp: theta_of_def)
  then have ne: "spec_update lr X y (theta_of g) \<noteq> []"
    using Cons.prems by auto
  have th1: "theta_of ?g1 = spec_update lr X y (theta_of g)"
    using ne by (simp add: theta_of_def)
  have "Suc (length (gd_coefficients ?g1)) = ncols X"
    using lu Cons.prems by simp
  from Cons.IH [OF this] obtain g' where
    g': "gd_loop X y lr es ?g1 = (Inr (), g')"
      "theta_of g' = spec_params lr X y (theta_of ?g1) (length es)"
      "loss_history g' = loss_history ?g1 @
        map (\<lambda>i. Fin (spec_mse X y (spec_params lr X y (theta_of ?g1) i))) [0..<length es]"
      "w_history g' = w_history ?g1 @
        map (\<lambda>i. spec_params lr X y (theta_of ?g1) (Suc i)) [0..<length es]"
    by blast
  have shift: "\<And>i. spec_params lr X y (spec_update lr X y (theta_of g)) i
      = spec_params lr X y (theta_of g) (Suc i)"
  proof -
    fix i show "spec_params lr X y (spec_update lr X y (theta_of g)) i
      = spec_params lr X y (theta_of g) (Suc i)"
      by (induction i) simp_all
  qed
  have ups: "[0..<Suc (length es)] = 0 # map Suc [0..<length es]"
    by (simp add: upt_conv_Cons map_Suc_upt del: upt_Suc)
  show ?case
    apply (rule exI [of _ g'])
    apply (simp only: gd_loop.simps st sum.case g' th1 shift list.size)
    apply (simp add: ups o_def del: upt_Suc spec_params.simps)
    apply (simp add: shift [symmetric])
    done
qed


lemma theta_of_initial_vars: "theta_of (initial_vars X rnd s) = initial_theta X rnd"
  by (simp add: theta_of_def initial_vars_def initial_theta_def)

lemma fit_gradient_descent_spec:
  assumes "length y = nrows (as_2d X)" and "0 < length y"
  shows "\<exists>s'. fit X y ''gradient_descent'' lr iterations rnd s =
      (Inr (Histories
         (map (\<lambda>i. Fin (spec_mse (insert_ones (as_2d X)) y
                  (spec_params lr (insert_ones (as_2d X)) y
                     (initial_theta (insert_ones (as_2d X)) rnd) i))) [0..<nat iterations])
         (map (\<lambda>i. spec_params lr (insert_ones (as_2d X)) y
                     (initial_theta (insert_ones (as_2d X)) rnd) (Suc i)) [0..<nat iterations])),
       s') \<and>
     intercept s' = Some (hd (spec_params lr (insert_ones (as_2d X)) y
          (initial_theta (insert_ones (as_2d X)) rnd) (nat iterations))) \<and>
     coefficients s' = Some (tl (spec_params lr (insert_ones (as_2d X)) y
          (initial_theta (insert_ones (as_2d X)) rnd) (nat iterations)))"
proof -
  let ?Xb = "insert_ones (as_2d X)"
  let ?g = "initial_vars ?Xb rnd s"
  have c: "Suc (length (gd_coefficients ?g)) = ncols ?Xb"
    by (simp add: initial_vars_def insert_ones_def)
  have r: "length y = nrows ?Xb"
    using assms(1) by (simp add: nrows_def insert_ones_def)
  from gd_loop_spec [OF c r assms(2), of lr "[0..<nat iterations]"]
  obtain g' where g': "gd_loop ?Xb y lr [0..<nat iterations] ?g = (Inr (), g')"
     "theta_of g' = spec_params lr ?Xb y (theta_of ?g) (length [0..<nat iterations])"
     "loss_history g' = loss_history ?g @
        map (\<lambda>i. Fin (spec_mse ?Xb y (spec_params lr ?Xb y (theta_of ?g) i)))
          [0..<length [0..<nat iterations]]"
     "w_history g' = w_history ?g @
        map (\<lambda>i. spec_params lr ?Xb y (theta_of ?g) (Suc i)) [0..<length [0..<nat iterations]]"
    by blast
  have nz: "ncols ?Xb \<noteq> 0"
    by (simp add: insert_ones_def)
  have h0: "loss_history ?g = []" "w_history ?g = []"
    by (simp_all add: initial_vars_def)
  have "fit X y ''gradient_descent'' lr iterations rnd s =
      (Inr (Histories (loss_history g') (w_history g')), store_vars g')"
    using nz by (simp add: fit_def fit_gradient_descent_def g'(1) Let_def)
  moreover have "intercept (store_vars g') = Some (hd (theta_of g'))"
    "coefficients (store_vars g') = Some (tl (theta_of g'))"
    by (simp_all add: store_vars_def theta_of_def)
  ultimately show ?thesis
    using g'(2,3,4) by (simp add: h0 theta_of_initial_vars)
qed

text \<open>
  Claim C2. With \<open>m \<ge> 1\<close> observations (\<open>y\<close> as long as \<open>X\<close> has rows) and an iteration count
  that is not negative, \<open>fit\<close> with \<open>''gradient_descent''\<close> returns two histories of exactly
  \<open>iterations\<close> entries each, whatever the loss does: entry \<open>i\<close> of the weight history is the
  parameter vector after \<open>i + 1\<close> updates of the specification's formula, starting from the
  initial parameters; entry \<open>i\<close> of the loss history is the mean squared error of the error
  vector of iteration \<open>i\<close>; and the model is left holding the parameters after the last update.
\<close>

theorem fit_gradient_descent_runs:
  assumes "length y = nrows (as_2d X)" and "0 < length y" and "0 \<le> iterations"
  shows "\<exists>L W s'.
     fit X y ''gradient_descent'' lr iterations rnd s = (Inr (Histories L W), s') \<and>
     int (length L) = iterations \<and> int (length W) = iterations \<and>
     (\<forall>i<nat iterations.
        W ! i = spec_params lr (insert_ones (as_2d X)) y
                  (initial_theta (insert_ones (as_2d X)) rnd) (Suc i) \<and>
        L ! i = Fin (spec_mse (insert_ones (as_2d X)) y
                  (spec_params lr (insert_ones (as_2d X)) y
                     (initial_theta (insert_ones (as_2d X)) rnd) i))) \<and>
     intercept s' = Some (hd (spec_params lr (insert_ones (as_2d X)) y
          (initial_theta (insert_ones (as_2d X)) rnd) (nat iterations))) \<and>
     coefficients s' = Some (tl (spec_params lr (insert_ones (as_2d X)) y
          (initial_theta (insert_ones (as_2d X)) rnd) (nat iterations)))"
proof -
  from fit_gradient_descent_spec [OF assms(1,2), of lr iterations rnd s]
  obtain s' where s': "fit X y ''gradient_descent'' lr iterations rnd s =
      (Inr (Histories
         (map (\<lambda>i. Fin (spec_mse (insert_ones (as_2d X)) y
                  (spec_params lr (insert_ones (as_2d X)) y
                     (initial_theta (insert_ones (as_2d X)) rnd) i))) [0..<nat iterations])
         (map (\<lambda>i. spec_params lr (insert_ones (as_2d X)) y
                     (initial_theta (insert_ones (as_2d X)) rnd) (Suc i)) [0..<nat iterations])),
       s')"
     "intercept s' = Some (hd (spec_params lr (insert_ones (as_2d X)) y
          (initial_theta (insert_ones (as_2d X)) rnd) (nat iterations)))"
     "coefficients s' = Some (tl (spec_params lr (insert_ones (as_2d X)) y
          (initial_theta (insert_ones (as_2d X)) rnd) (nat iterations)))"
    by blast
  show ?thesis
    apply (intro exI conjI)
         apply (rule s'(1))
    using assms(3) s'(2,3) by simp_all
qed

text \<open>
  Claim C10. The two histories are one update apart: the first loss is the loss of the
  initial parameters, and for \<open>i \<ge> 1\<close> the loss at \<open>i\<close> is the mean squared error of the
  parameters stored at \<open>i - 1\<close> of the weight history. (The example that follows also has an
  entry of the loss history that differs from the loss of the snapshot stored at the same index.)
\<close>

theorem fit_gradient_descent_loss_offset:
  assumes "length y = nrows (as_2d X)" and "0 < length y"
    and "fit X y ''gradient_descent'' lr iterations rnd s = (Inr (Histories L W), s')"
  shows "(0 < iterations \<longrightarrow>
            L ! 0 = Fin (spec_mse (insert_ones (as_2d X)) y
                           (initial_theta (insert_ones (as_2d X)) rnd))) \<and>
         (\<forall>i. 1 \<le> i \<and> int i < iterations \<longrightarrow>
            L ! i = Fin (spec_mse (insert_ones (as_2d X)) y (W ! (i - 1))))"
proof -
  from fit_gradient_descent_spec [OF assms(1,2), of lr iterations rnd s] assms(3)
  have L: "L = map (\<lambda>i. Fin (spec_mse (insert_ones (as_2d X)) y
                  (spec_params lr (insert_ones (as_2d X)) y
                     (initial_theta (insert_ones (as_2d X)) rnd) i))) [0..<nat iterations]"
    and W: "W = map (\<lambda>i. spec_params lr (insert_ones (as_2d X)) y
                     (initial_theta (insert_ones (as_2d X)) rnd) (Suc i)) [0..<nat iterations]"
    by auto
  show ?thesis
  proof (intro conjI allI impI)
    assume "0 < iterations"
    then show "L ! 0 = Fin (spec_mse (insert_ones (as_2d X)) y
                           (initial_theta (insert_ones (as_2d X)) rnd))"
      by (simp add: L)
  next
    fix i assume i: "1 \<le> i \<and> int i < iterations"
    then have "i < nat iterations" "i - 1 < nat iterations" "Suc (i - 1) = i"
      by auto
    then show "L ! i = Fin (spec_mse (insert_ones (as_2d X)) y (W ! (i - 1)))"
      by (simp add: L W del: spec_params.simps)
  qed
qed

theorem fit_gradient_descent_runs_witness:
  "length [2, 4 :: real] = nrows (as_2d (Arr1 [1, 2])) \<and> 0 < length [2, 4 :: real] \<and>
   (0 :: int) \<le> 2 \<and>
   (\<exists>L W s'.
     fit (Arr1 [1, 2]) [2, 4] ''gradient_descent'' (1 / 10) 2 (\<lambda>i. 0) init
       = (Inr (Histories L W), s') \<and>
     int (length L) = 2 \<and> int (length W) = 2 \<and>
     W ! 0 = [3 / 5, 1] \<and> L ! 0 = Fin 10 \<and> W ! 1 = [39 / 50, 33 / 25] \<and> L ! 1 = Fin (53 / 50) \<and>
     intercept s' = Some (39 / 50) \<and> coefficients s' = Some [33 / 25])"
proof -
  have h1: "length [2, 4 :: real] = nrows (as_2d (Arr1 [1, 2]))"
    by (simp add: nrows_def as_2d_def reshape_col_def)
  have h2: "0 < length [2, 4 :: real]" by simp
  have h3: "(0 :: int) \<le> 2" by simp
  have n: "nat 2 = Suc (Suc 0)" by simp
  have p0: "spec_params (1 / 10) (insert_ones (as_2d (Arr1 [1, 2]))) [2, 4]
       (initial_theta (insert_ones (as_2d (Arr1 [1, 2]))) (\<lambda>i. 0)) 0 = [0, 0]"
    by code_simp
  have p1: "spec_params (1 / 10) (insert_ones (as_2d (Arr1 [1, 2]))) [2, 4]
       (initial_theta (insert_ones (as_2d (Arr1 [1, 2]))) (\<lambda>i. 0)) (Suc 0) = [3 / 5, 1]"
    by code_simp
  have p2: "spec_params (1 / 10) (insert_ones (as_2d (Arr1 [1, 2]))) [2, 4]
       (initial_theta (insert_ones (as_2d (Arr1 [1, 2]))) (\<lambda>i. 0)) (Suc (Suc 0)) = [39 / 50, 33 / 25]"
    by code_simp
  have m0: "spec_mse (insert_ones (as_2d (Arr1 [1, 2]))) [2, 4] [0, 0] = 10"
    by code_simp
  have m1: "spec_mse (insert_ones (as_2d (Arr1 [1, 2]))) [2, 4] [3 / 5, 1] = 53 / 50"
    by code_simp
  from fit_gradient_descent_runs [OF h1 h2 h3, of "1 / 10" "\<lambda>i. 0" init]
  obtain L W s' where r:
    "fit (Arr1 [1, 2]) [2, 4] ''gradient_descent'' (1 / 10) 2 (\<lambda>i. 0) init
       = (Inr (Histories L W), s')"
    "int (length L) = 2" "int (length W) = 2"
    "\<forall>i<nat 2.
        W ! i = spec_params (1 / 10) (insert_ones (as_2d (Arr1 [1, 2]))) [2, 4]
                  (initial_theta (insert_ones (as_2d (Arr1 [1, 2]))) (\<lambda>i. 0)) (Suc i) \<and>
        L ! i = Fin (spec_mse (insert_ones (as_2d (Arr1 [1, 2]))) [2, 4]
                  (spec_params (1 / 10) (insert_ones (as_2d (Arr1 [1, 2]))) [2, 4]
                     (initial_theta (insert_ones (as_2d (Arr1 [1, 2]))) (\<lambda>i. 0)) i))"
    "intercept s' = Some (hd (spec_params (1 / 10) (insert_ones (as_2d (Arr1 [1, 2]))) [2, 4]
          (initial_theta (insert_ones (as_2d (Arr1 [1, 2]))) (\<lambda>i. 0)) (nat 2)))"
    "coefficients s' = Some (tl (spec_params (1 / 10) (insert_ones (as_2d (Arr1 [1, 2]))) [2, 4]
          (initial_theta (insert_ones (as_2d (Arr1 [1, 2]))) (\<lambda>i. 0)) (nat 2)))"
    by blast
  have z: "0 < nat 2" "Suc 0 < nat 2" by simp_all
  from r(4) [rule_format, OF z(1)] have "W ! 0 = [3 / 5, 1]" "L ! 0 = Fin 10"
    by (simp_all only: p0 p1 m0)
  moreover from r(4) [rule_format, OF z(2)] have "W ! 1 = [39 / 50, 33 / 25]"
    "L ! 1 = Fin (53 / 50)"
    by (simp_all only: p1 p2 m1 One_nat_def)
  moreover from r(5,6) have "intercept s' = Some (39 / 50)" "coefficients s' = Some [33 / 25]"
    unfolding n by (simp_all only: p2 list.sel)
  ultimately show ?thesis
    using h1 h2 h3 r(1,2,3) by blast
qed

lemma gd_example:
  "fit (Arr1 [1, 2]) [2, 4] ''gradient_descent'' (1 / 10) 2 (\<lambda>i. 0) init =
      (Inr (Histories [Fin 10, Fin (53 / 50)] [[3 / 5, 1], [39 / 50, 33 / 25]]),
       \<lparr>coefficients = Some [33 / 25], intercept = Some (39 / 50), stdout = [(0, Fin 10)]\<rparr>)"
  by code_simp

theorem fit_gradient_descent_loss_offset_witness:
  "length [2, 4 :: real] = nrows (as_2d (Arr1 [1, 2])) \<and> 0 < length [2, 4 :: real] \<and>
   fit (Arr1 [1, 2]) [2, 4] ''gradient_descent'' (1 / 10) 2 (\<lambda>i. 0) init =
      (Inr (Histories [Fin 10, Fin (53 / 50)] [[3 / 5, 1], [39 / 50, 33 / 25]]),
       \<lparr>coefficients = Some [33 / 25], intercept = Some (39 / 50), stdout = [(0, Fin 10)]\<rparr>) \<and>
   [Fin 10, Fin (53 / 50)] ! 0 =
      Fin (spec_mse (insert_ones (as_2d (Arr1 [1, 2]))) [2, 4]
             (initial_theta (insert_ones (as_2d (Arr1 [1, 2]))) (\<lambda>i. 0))) \<and>
   [Fin 10, Fin (53 / 50)] ! 1 =
      Fin (spec_mse (insert_ones (as_2d (Arr1 [1, 2]))) [2, 4]
             ([[3 / 5, 1], [39 / 50, 33 / 25]] ! 0)) \<and>
   [Fin 10, Fin (53 / 50)] ! 1 \<noteq>
      Fin (spec_mse (insert_ones (as_2d (Arr1 [1, 2]))) [2, 4]
             ([[3 / 5, 1], [39 / 50, 33 / 25]] ! 1))"
proof -
  have h1: "length [2, 4 :: real] = nrows (as_2d (Arr1 [1, 2]))"
    by (simp add: nrows_def as_2d_def reshape_col_def)
  have h2: "0 < length [2, 4 :: real]" by simp
  have m: "spec_mse (insert_ones (as_2d (Arr1 [1, 2]))) [2, 4] [39 / 50, 33 / 25] = 433 / 2500"
    by code_simp
  from fit_gradient_descent_loss_offset [OF h1 h2 gd_example]
  have a: "[Fin 10, Fin (53 / 50)] ! 0 =
      Fin (spec_mse (insert_ones (as_2d (Arr1 [1, 2]))) [2, 4]
             (initial_theta (insert_ones (as_2d (Arr1 [1, 2]))) (\<lambda>i. 0)))"
    and b: "\<forall>i. 1 \<le> i \<and> int i < 2 \<longrightarrow> [Fin 10, Fin (53 / 50)] ! i =
      Fin (spec_mse (insert_ones (as_2d (Arr1 [1, 2]))) [2, 4]
             ([[3 / 5, 1], [39 / 50, 33 / 25]] ! (i - 1)))"
    by simp_all
  from b have b1: "[Fin 10, Fin (53 / 50)] ! 1 =
      Fin (spec_mse (insert_ones (as_2d (Arr1 [1, 2]))) [2, 4]
             ([[3 / 5, 1], [39 / 50, 33 / 25]] ! 0))"
    by (metis diff_self_eq_0 le_refl of_nat_1 one_less_numeral_iff semiring_norm(76))
  have c: "[Fin 10, Fin (53 / 50)] ! 1 \<noteq>
      Fin (spec_mse (insert_ones (as_2d (Arr1 [1, 2]))) [2, 4]
             ([[3 / 5, 1], [39 / 50, 33 / 25]] ! 1))"
    by (simp add: m)
  from h1 h2 gd_example a b1 c show ?thesis
    by blast
qed

section \<open>Properties of \<^verbatim>\<open>one_hot_encode\<close>\<close>
















lemma set_indicator: "set (map (\<lambda>category. if v = category then (1::int) else 0) xs) \<subseteq> {0, 1}"
  by auto








section \<open>Matrix inversion and the normal equation\<close>

lemma dot_Nil [simp]: "dot [] v = 0" "dot u [] = 0"
  by (simp_all add: dot_def)

lemma dot_Cons [simp]: "dot (a # u) (b # v) = a * b + dot u v"
  by (simp add: dot_def)

lemma dot_sum: "length u = length v \<Longrightarrow> dot u v = (\<Sum>i<length u. u ! i * v ! i)"
proof (induction u arbitrary: v)
  case Nil
  then show ?case by simp
next
  case (Cons a u)
  then obtain b v' where v: "v = b # v'" by (cases v) auto
  with Cons show ?case
    by (simp add: sum.lessThan_Suc_shift del: sum.lessThan_Suc)
qed

lemma dot_vscale: "dot (vscale c u) w = c * dot u w"
proof (induction u arbitrary: w)
  case Nil
  then show ?case by (simp add: vscale_def)
next
  case (Cons a u)
  then show ?case
    by (cases w) (simp_all add: vscale_def algebra_simps)
qed

lemma dot_vsub: "length u = length v \<Longrightarrow> dot (vsub u v) w = dot u w - dot v w"
proof (induction u arbitrary: v w)
  case Nil
  then show ?case by (simp add: vsub_def)
next
  case (Cons a u)
  then obtain b v' where v: "v = b # v'" by (cases v) auto
  show ?case
  proof (cases w)
    case Nil
    then show ?thesis by simp
  next
    case (Cons c w')
    with Cons.IH [of v' w'] Cons.prems v show ?thesis
      by (simp add: vsub_def algebra_simps)
  qed
qed

lemma dot_append: "length a = length x \<Longrightarrow> dot (a @ b) (x @ y) = dot a x + dot b y"
  by (simp add: dot_def)

lemma dot_uminus: "dot b (map uminus z) = - dot b z"
proof (induction b arbitrary: z)
  case Nil
  then show ?case by simp
next
  case (Cons a b)
  then show ?case by (cases z) simp_all
qed

lemma dot_zeros: "dot b (replicate n 0) = 0"
proof (induction b arbitrary: n)
  case Nil
  then show ?case by simp
next
  case (Cons a b)
  then show ?case by (cases n) simp_all
qed

lemma dot_unit_vec: "length r = n \<Longrightarrow> i < n \<Longrightarrow> dot (unit_vec n i) r = r ! i"
  by (simp add: dot_sum unit_vec_def sum.delta if_distrib [of "\<lambda>x. x * _"] cong: if_cong)

lemma dot_unit_vec': "length r = n \<Longrightarrow> i < n \<Longrightarrow> dot r (unit_vec n i) = r ! i"
  by (simp add: dot_sum unit_vec_def sum.delta if_distrib [of "\<lambda>x. _ * x"] cong: if_cong)

lemma length_vscale [simp]: "length (vscale c v) = length v"
  by (simp add: vscale_def)

lemma length_vsub [simp]: "length (vsub u v) = min (length u) (length v)"
  by (simp add: vsub_def)

lemma nth_vscale: "i < length v \<Longrightarrow> vscale c v ! i = c * v ! i"
  by (simp add: vscale_def)

lemma nth_vsub: "i < length u \<Longrightarrow> i < length v \<Longrightarrow> vsub u v ! i = u ! i - v ! i"
  by (simp add: vsub_def)

lemma gj_step_None:
  "gj_step j rs = None \<longleftrightarrow> (\<forall>i. j \<le> i \<and> i < length rs \<longrightarrow> rs ! i ! j = 0)"
proof -
  have "gj_step j rs = None \<longleftrightarrow> find (\<lambda>i. rs ! i ! j \<noteq> 0) [j..<length rs] = None"
    by (simp add: gj_step_def Let_def split: option.splits)
  also have "\<dots> \<longleftrightarrow> (\<forall>i. j \<le> i \<and> i < length rs \<longrightarrow> rs ! i ! j = 0)"
    by (auto simp: find_None_iff)
  finally show ?thesis .
qed

lemma gj_step_rows:
  assumes "gj_step j rs = Some rs'" and "j < length rs"
  shows "\<exists>p. j \<le> p \<and> p < length rs \<and> rs ! p ! j \<noteq> 0 \<and> length rs' = length rs \<and>
      rs' ! j = vscale (1 / (rs ! p ! j)) (rs ! p) \<and>
      (\<forall>k<length rs. k \<noteq> j \<longrightarrow>
         rs' ! k = vsub (if k = p then rs ! j else rs ! k)
                     (vscale ((if k = p then rs ! j else rs ! k) ! j)
                        (vscale (1 / (rs ! p ! j)) (rs ! p))))"
proof -
  from assms(1) obtain p where f: "find (\<lambda>i. rs ! i ! j \<noteq> 0) [j..<length rs] = Some p"
    and rs': "rs' = map (\<lambda>k. if k = j then vscale (1 / (rs ! p ! j)) (rs ! p)
         else vsub (rs[p := rs ! j, j := vscale (1 / (rs ! p ! j)) (rs ! p)] ! k)
                (vscale (rs[p := rs ! j, j := vscale (1 / (rs ! p ! j)) (rs ! p)] ! k ! j)
                   (vscale (1 / (rs ! p ! j)) (rs ! p)))) [0..<length rs]"
    by (auto simp: gj_step_def Let_def split: option.splits)
  from f have p: "j \<le> p" "p < length rs" "rs ! p ! j \<noteq> 0"
    by (auto simp: find_Some_iff)
  have sw: "\<And>k. k < length rs \<Longrightarrow> k \<noteq> j \<Longrightarrow>
      rs[p := rs ! j, j := vscale (1 / (rs ! p ! j)) (rs ! p)] ! k = (if k = p then rs ! j else rs ! k)"
    using p(2) by (simp add: nth_list_update)
  show ?thesis
    apply (rule exI [of _ p])
    using p assms(2) by (simp add: rs' sw)
qed

text \<open>All rows have the same length.\<close>

lemma gj_step_lengths:
  assumes "gj_step j rs = Some rs'" and "j < length rs" and "\<forall>r\<in>set rs. length r = L"
  shows "length rs' = length rs \<and> (\<forall>r\<in>set rs'. length r = L)"
proof -
  from gj_step_rows [OF assms(1,2)] obtain p where
    p: "j \<le> p" "p < length rs" "rs ! p ! j \<noteq> 0" and l: "length rs' = length rs"
    and pj: "rs' ! j = vscale (1 / (rs ! p ! j)) (rs ! p)"
    and pk: "\<forall>k<length rs. k \<noteq> j \<longrightarrow>
         rs' ! k = vsub (if k = p then rs ! j else rs ! k)
                     (vscale ((if k = p then rs ! j else rs ! k) ! j)
                        (vscale (1 / (rs ! p ! j)) (rs ! p)))"
    by blast
  have len: "\<And>k. k < length rs \<Longrightarrow> length (rs ! k) = L"
    using assms(3) by simp
  have "\<And>k. k < length rs' \<Longrightarrow> length (rs' ! k) = L"
  proof -
    fix k assume k: "k < length rs'"
    show "length (rs' ! k) = L"
    proof (cases "k = j")
      case True
      then show ?thesis using pj len [OF p(2)] by simp
    next
      case False
      with pk k l have "rs' ! k = vsub (if k = p then rs ! j else rs ! k)
                     (vscale ((if k = p then rs ! j else rs ! k) ! j)
                        (vscale (1 / (rs ! p ! j)) (rs ! p)))" by simp
      then show ?thesis
        using len [OF p(2)] len [OF assms(2)] len [of k] k l by simp
    qed
  qed
  then show ?thesis
    using l by (auto simp: in_set_conv_nth)
qed

text \<open>The step is a sequence of invertible row operations: it keeps the solutions.\<close>

lemma gj_step_kernel:
  assumes "gj_step j rs = Some rs'" and "j < length rs" and "\<forall>r\<in>set rs. length r = L"
  shows "(\<forall>r\<in>set rs'. dot r w = 0) \<longleftrightarrow> (\<forall>r\<in>set rs. dot r w = 0)"
proof -
  from gj_step_rows [OF assms(1,2)] obtain p where
    p: "j \<le> p" "p < length rs" "rs ! p ! j \<noteq> 0" and l: "length rs' = length rs"
    and pj: "rs' ! j = vscale (1 / (rs ! p ! j)) (rs ! p)"
    and pk: "\<forall>k<length rs. k \<noteq> j \<longrightarrow>
         rs' ! k = vsub (if k = p then rs ! j else rs ! k)
                     (vscale ((if k = p then rs ! j else rs ! k) ! j)
                        (vscale (1 / (rs ! p ! j)) (rs ! p)))"
    by blast
  have len: "\<And>k. k < length rs \<Longrightarrow> length (rs ! k) = L"
    using assms(3) by simp
  let ?piv = "vscale (1 / (rs ! p ! j)) (rs ! p)"
  have dpiv: "dot ?piv w = dot (rs ! p) w / (rs ! p ! j)"
    by (simp add: dot_vscale)
  have dk: "\<And>k. k < length rs \<Longrightarrow> k \<noteq> j \<Longrightarrow>
     dot (rs' ! k) w = dot (if k = p then rs ! j else rs ! k) w
        - (if k = p then rs ! j else rs ! k) ! j * dot ?piv w"
  proof -
    fix k assume k: "k < length rs" "k \<noteq> j"
    have e: "length (if k = p then rs ! j else rs ! k)
        = length (vscale ((if k = p then rs ! j else rs ! k) ! j) ?piv)"
      using len [OF p(2)] len [OF assms(2)] len [OF k(1)] by simp
    show "dot (rs' ! k) w = dot (if k = p then rs ! j else rs ! k) w
        - (if k = p then rs ! j else rs ! k) ! j * dot ?piv w"
    proof -
      from pk k have eq: "rs' ! k = vsub (if k = p then rs ! j else rs ! k)
                     (vscale ((if k = p then rs ! j else rs ! k) ! j) ?piv)"
        by simp
      show ?thesis
        by (simp only: eq dot_vsub [OF e] dot_vscale)
    qed
  qed
  show ?thesis
  proof
    assume a: "\<forall>r\<in>set rs. dot r w = 0"
    have z: "\<And>k. k < length rs \<Longrightarrow> dot (rs ! k) w = 0"
      using a by simp
    have "\<And>k. k < length rs' \<Longrightarrow> dot (rs' ! k) w = 0"
    proof -
      fix k assume k: "k < length rs'"
      show "dot (rs' ! k) w = 0"
      proof (cases "k = j")
        case True
        then show ?thesis using pj dpiv z [OF p(2)] by simp
      next
        case False
        then show ?thesis
          using dk [of k] k l dpiv z [OF p(2)] z [OF assms(2)] z [of k] by simp
      qed
    qed
    then show "\<forall>r\<in>set rs'. dot r w = 0"
      by (auto simp: in_set_conv_nth)
  next
    assume a: "\<forall>r\<in>set rs'. dot r w = 0"
    have z: "\<And>k. k < length rs \<Longrightarrow> dot (rs' ! k) w = 0"
      using a l by simp
    have zp: "dot (rs ! p) w = 0"
      using z [OF assms(2)] pj dpiv p(3) by simp
    then have zpiv: "dot ?piv w = 0"
      using dpiv by simp
    have zj: "dot (rs ! j) w = 0"
    proof (cases "p = j")
      case True
      then show ?thesis using zp by simp
    next
      case False
      then show ?thesis
        using dk [OF p(2)] z [OF p(2)] zpiv by simp
    qed
    have "\<And>k. k < length rs \<Longrightarrow> dot (rs ! k) w = 0"
    proof -
      fix k assume k: "k < length rs"
      show "dot (rs ! k) w = 0"
      proof (cases "k = j \<or> k = p")
        case True
        then show ?thesis using zj zp by auto
      next
        case False
        then show ?thesis
          using dk [OF k] z [OF k] zpiv by simp
      qed
    qed
    then show "\<forall>r\<in>set rs. dot r w = 0"
      by (auto simp: in_set_conv_nth)
  qed
qed

lemma gj_step_unit:
  assumes "gj_step j rs = Some rs'" and "j < length rs" and "\<forall>r\<in>set rs. length r = L"
    and "j < L" and "unit_cols j rs"
  shows "unit_cols (Suc j) rs'"
proof -
  from gj_step_rows [OF assms(1,2)] obtain p where
    p: "j \<le> p" "p < length rs" "rs ! p ! j \<noteq> 0" and l: "length rs' = length rs"
    and pj: "rs' ! j = vscale (1 / (rs ! p ! j)) (rs ! p)"
    and pk: "\<forall>k<length rs. k \<noteq> j \<longrightarrow>
         rs' ! k = vsub (if k = p then rs ! j else rs ! k)
                     (vscale ((if k = p then rs ! j else rs ! k) ! j)
                        (vscale (1 / (rs ! p ! j)) (rs ! p)))"
    by blast
  have len: "\<And>k. k < length rs \<Longrightarrow> length (rs ! k) = L"
    using assms(3) by simp
  let ?piv = "vscale (1 / (rs ! p ! j)) (rs ! p)"
  have u: "\<And>c k. c < j \<Longrightarrow> k < length rs \<Longrightarrow> rs ! k ! c = (if k = c then 1 else 0)"
    using assms(5) by (simp add: unit_cols_def)
  have piv: "\<And>c. c < L \<Longrightarrow> ?piv ! c = rs ! p ! c / (rs ! p ! j)"
    using len [OF p(2)] by (simp add: nth_vscale)
  have pivj: "?piv ! j = 1"
    using piv [OF assms(4)] p(3) by simp
  have pivc: "\<And>c. c < j \<Longrightarrow> ?piv ! c = 0"
  proof -
    fix c assume c: "c < j"
    then have "rs ! p ! c = 0" using u [OF c p(2)] p(1) by simp
    then show "?piv ! c = 0" using piv [of c] c assms(4) by simp
  qed
  have ent: "\<And>k c. k < length rs \<Longrightarrow> k \<noteq> j \<Longrightarrow> c < L \<Longrightarrow>
      rs' ! k ! c = (if k = p then rs ! j else rs ! k) ! c
         - (if k = p then rs ! j else rs ! k) ! j * ?piv ! c"
  proof -
    fix k c assume k: "k < length rs" "k \<noteq> j" and c: "c < L"
    from pk k have eq: "rs' ! k = vsub (if k = p then rs ! j else rs ! k)
                     (vscale ((if k = p then rs ! j else rs ! k) ! j) ?piv)"
      by simp
    have l1: "length (if k = p then rs ! j else rs ! k) = L"
      using len [OF assms(2)] len [OF k(1)] by simp
    have l2: "length ?piv = L" using len [OF p(2)] by simp
    show "rs' ! k ! c = (if k = p then rs ! j else rs ! k) ! c
         - (if k = p then rs ! j else rs ! k) ! j * ?piv ! c"
      unfolding eq using c l1 l2 by (simp add: nth_vsub nth_vscale)
  qed
  show ?thesis
    unfolding unit_cols_def
  proof (intro allI impI)
    fix c k assume c: "c < Suc j" and k: "k < length rs'"
    have k': "k < length rs" using k l by simp
    have cL: "c < L" using c assms(4) by simp
    show "rs' ! k ! c = (if k = c then 1 else 0)"
    proof (cases "k = j")
      case True
      show ?thesis
      proof (cases "c = j")
        case True
        with \<open>k = j\<close> pj pivj show ?thesis by simp
      next
        case False
        then have "c < j" using c by simp
        with \<open>k = j\<close> pj pivc [of c] show ?thesis by simp
      qed
    next
      case False
      note kj = this
      show ?thesis
      proof (cases "c = j")
        case True
        with ent [OF k' kj cL] pivj kj show ?thesis by simp
      next
        case False
        then have cj: "c < j" using c by simp
        have "rs' ! k ! c = (if k = p then rs ! j else rs ! k) ! c"
          using ent [OF k' kj cL] pivc [OF cj] by simp
        also have "\<dots> = (if k = c then 1 else 0)"
          using u [OF cj assms(2)] u [OF cj k'] cj p(1) by auto
        finally show ?thesis .
      qed
    qed
  qed
qed

lemma gj_step_None_kernel:
  assumes "gj_step j rs = None" and "j < length rs" and "\<forall>r\<in>set rs. length r = L"
    and "length rs \<le> L" and "unit_cols j rs"
  shows "\<exists>x. length x = length rs \<and> x ! j = 1 \<and>
           (\<forall>r\<in>set rs. dot r (x @ replicate (L - length rs) 0) = 0)"
proof -
  let ?n = "length rs"
  define x where "x = map (\<lambda>c. if c < j then - (rs ! c ! j) else if c = j then 1 else 0) [0..<?n]"
  have lx: "length x = ?n" by (simp add: x_def)
  have xj: "x ! j = 1" using assms(2) by (simp add: x_def)
  have z: "\<And>i. j \<le> i \<Longrightarrow> i < ?n \<Longrightarrow> rs ! i ! j = 0"
    using assms(1) by (simp add: gj_step_None)
  have u: "\<And>c k. c < j \<Longrightarrow> k < ?n \<Longrightarrow> rs ! k ! c = (if k = c then 1 else 0)"
    using assms(5) by (simp add: unit_cols_def)
  have "\<And>k. k < ?n \<Longrightarrow> dot (rs ! k) (x @ replicate (L - ?n) 0) = 0"
  proof -
    fix k assume k: "k < ?n"
    have lk: "length (rs ! k) = L" using assms(3) k by simp
    have "rs ! k = take ?n (rs ! k) @ drop ?n (rs ! k)" by simp
    then have "dot (rs ! k) (x @ replicate (L - ?n) 0)
        = dot (take ?n (rs ! k) @ drop ?n (rs ! k)) (x @ replicate (L - ?n) 0)" by simp
    also have "\<dots> = dot (take ?n (rs ! k)) x + dot (drop ?n (rs ! k)) (replicate (L - ?n) 0)"
      by (rule dot_append) (simp add: lx lk assms(4))
    also have "\<dots> = dot (take ?n (rs ! k)) x" by (simp add: dot_zeros)
    also have "\<dots> = (\<Sum>c<?n. rs ! k ! c * x ! c)"
      using lk assms(4) by (simp add: dot_sum lx)
    also have "\<dots> = (\<Sum>c<?n. (if c = k \<and> k < j then - (rs ! k ! j) else 0)
                            + (if c = j then rs ! k ! j else 0))"
      by (rule sum.cong) (auto simp: x_def u k)
    also have "\<dots> = (\<Sum>c<?n. if c = k \<and> k < j then - (rs ! k ! j) else 0)
                      + (\<Sum>c<?n. if c = j then rs ! k ! j else 0)"
      by (rule sum.distrib)
    also have "\<dots> = (if k < j then - (rs ! k ! j) else 0) + rs ! k ! j"
    proof -
      have s2: "(\<Sum>c<?n. if c = j then rs ! k ! j else 0) = rs ! k ! j"
        using assms(2) by (simp add: sum.delta)
      have s1: "(\<Sum>c<?n. if c = k \<and> k < j then - (rs ! k ! j) else 0)
          = (if k < j then - (rs ! k ! j) else 0)"
        using k by (cases "k < j") (simp_all add: sum.delta)
      show ?thesis by (simp only: s1 s2)
    qed
    also have "\<dots> = 0"
      using z [of k] k by simp
    finally show "dot (rs ! k) (x @ replicate (L - ?n) 0) = 0" .
  qed
  then have "\<forall>r\<in>set rs. dot r (x @ replicate (L - ?n) 0) = 0"
    by (auto simp: in_set_conv_nth)
  with lx xj show ?thesis by blast
qed

lemma gj_iter_invariant:
  assumes "n \<le> L"
  shows "length rs = n \<Longrightarrow> \<forall>r\<in>set rs. length r = L \<Longrightarrow> unit_cols j rs \<Longrightarrow> j + k = n \<Longrightarrow>
     \<forall>w. (\<forall>r\<in>set rs. dot r w = 0) \<longleftrightarrow> (\<forall>r\<in>set rs0. dot r w = 0) \<Longrightarrow>
     (case gj_iter k j rs of
        Some rs' \<Rightarrow> length rs' = n \<and> (\<forall>r\<in>set rs'. length r = L) \<and> unit_cols n rs' \<and>
           (\<forall>w. (\<forall>r\<in>set rs'. dot r w = 0) \<longleftrightarrow> (\<forall>r\<in>set rs0. dot r w = 0))
      | None \<Rightarrow> \<exists>x. length x = n \<and> x \<noteq> replicate n 0 \<and>
           (\<forall>r\<in>set rs0. dot r (x @ replicate (L - n) 0) = 0))"
proof (induction k arbitrary: j rs)
  case 0
  then show ?case by simp
next
  case (Suc k)
  have j: "j < length rs" "j < L"
    using Suc.prems(1,4) assms by simp_all
  show ?case
  proof (cases "gj_step j rs")
    case None
    from gj_step_None_kernel [OF None j(1) Suc.prems(2) _ Suc.prems(3)]
    obtain x where x: "length x = length rs" "x ! j = 1"
      "\<forall>r\<in>set rs. dot r (x @ replicate (L - length rs) 0) = 0"
      using Suc.prems(1) assms by blast
    have "x \<noteq> replicate n 0"
    proof
      assume "x = replicate n 0"
      then have "x ! j = 0" using j(1) Suc.prems(1) by simp
      with x(2) show False by simp
    qed
    moreover have "\<forall>r\<in>set rs0. dot r (x @ replicate (L - n) 0) = 0"
      using x(3) Suc.prems(1,5) by blast
    ultimately show ?thesis
      using x(1) Suc.prems(1) None by auto
  next
    case (Some rs1)
    from gj_step_lengths [OF Some j(1) Suc.prems(2)]
    have l1: "length rs1 = n" "\<forall>r\<in>set rs1. length r = L"
      using Suc.prems(1) by simp_all
    have u1: "unit_cols (Suc j) rs1"
      using gj_step_unit [OF Some j(1) Suc.prems(2) j(2) Suc.prems(3)] .
    have k1: "\<forall>w. (\<forall>r\<in>set rs1. dot r w = 0) \<longleftrightarrow> (\<forall>r\<in>set rs0. dot r w = 0)"
      using gj_step_kernel [OF Some j(1) Suc.prems(2)] Suc.prems(5) by blast
    have "Suc j + k = n" using Suc.prems(4) by simp
    from Suc.IH [OF l1 u1 this k1] show ?thesis
      by (simp add: Some)
  qed
qed

lemma identity_rows_nth: "i < n \<Longrightarrow> identity_rows n ! i = unit_vec n i"
  by (simp add: identity_rows_def unit_vec_def)

lemma length_identity_rows: "length (identity_rows n) = n"
  by (simp add: identity_rows_def)

lemma augmented_rows:
  assumes "length A = n"
  shows "length (map2 (@) A (identity_rows n)) = n"
    and "\<And>i. i < n \<Longrightarrow> map2 (@) A (identity_rows n) ! i = A ! i @ unit_vec n i"
  using assms by (simp_all add: identity_rows_nth length_identity_rows)

lemma augmented_kernel:
  assumes "length A = n" and "\<forall>r\<in>set A. length r = n" and "length x = n" and "length z = n"
  shows "(\<forall>r\<in>set (map2 (@) A (identity_rows n)). dot r (x @ z) = 0)
     \<longleftrightarrow> (\<forall>i<n. dot (A ! i) x + z ! i = 0)"
proof -
  have "\<And>i. i < n \<Longrightarrow> dot (map2 (@) A (identity_rows n) ! i) (x @ z) = dot (A ! i) x + z ! i"
  proof -
    fix i assume i: "i < n"
    have "length (A ! i) = length x" using assms i by simp
    then show "dot (map2 (@) A (identity_rows n) ! i) (x @ z) = dot (A ! i) x + z ! i"
      using i assms(4) by (simp add: augmented_rows(2) [OF assms(1) i] dot_append dot_unit_vec)
  qed
  then show ?thesis
    unfolding all_set_conv_all_nth augmented_rows(1) [OF assms(1)] by simp
qed

lemma reduced_kernel:
  assumes "length rs = n" and "\<forall>r\<in>set rs. length r = n + n" and "unit_cols n rs"
    and "length x = n" and "length z = n"
  shows "(\<forall>r\<in>set rs. dot r (x @ z) = 0)
     \<longleftrightarrow> (\<forall>k<n. x ! k + dot (drop n (rs ! k)) z = 0)"
proof -
  have "\<And>k. k < n \<Longrightarrow> dot (rs ! k) (x @ z) = x ! k + dot (drop n (rs ! k)) z"
  proof -
    fix k assume k: "k < n"
    have lk: "length (rs ! k) = n + n" using assms(1,2) k by simp
    have t: "take n (rs ! k) = unit_vec n k"
    proof (rule nth_equalityI)
      show "length (take n (rs ! k)) = length (unit_vec n k)"
        using lk by (simp add: unit_vec_def)
    next
      fix c assume "c < length (take n (rs ! k))"
      then have c: "c < n" using lk by simp
      then show "take n (rs ! k) ! c = unit_vec n k ! c"
        using assms(1,3) k by (simp add: unit_cols_def unit_vec_def)
    qed
    have "dot (rs ! k) (x @ z) = dot (take n (rs ! k) @ drop n (rs ! k)) (x @ z)" by simp
    also have "\<dots> = dot (take n (rs ! k)) x + dot (drop n (rs ! k)) z"
      by (rule dot_append) (simp add: lk assms(4))
    finally show "dot (rs ! k) (x @ z) = x ! k + dot (drop n (rs ! k)) z"
      using k assms(4) by (simp add: t dot_unit_vec)
  qed
  then show ?thesis
    unfolding all_set_conv_all_nth assms(1) by simp
qed

lemma gj_start:
  assumes "length A = n" and "\<forall>r\<in>set A. length r = n"
  shows "\<forall>r\<in>set (map2 (@) A (identity_rows n)). length r = n + n"
proof -
  have "\<And>i. i < n \<Longrightarrow> length (map2 (@) A (identity_rows n) ! i) = n + n"
    using assms by (simp add: augmented_rows(2) [OF assms(1)] unit_vec_def)
  then show ?thesis
    unfolding all_set_conv_all_nth augmented_rows(1) [OF assms(1)] by simp
qed

lemma gj_iter_start:
  assumes "length A = n" and "\<forall>r\<in>set A. length r = n"
  shows "case gj_iter n 0 (map2 (@) A (identity_rows n)) of
        Some rs' \<Rightarrow> length rs' = n \<and> (\<forall>r\<in>set rs'. length r = n + n) \<and> unit_cols n rs' \<and>
           (\<forall>w. (\<forall>r\<in>set rs'. dot r w = 0)
               \<longleftrightarrow> (\<forall>r\<in>set (map2 (@) A (identity_rows n)). dot r w = 0))
      | None \<Rightarrow> \<exists>x. length x = n \<and> x \<noteq> replicate n 0 \<and>
           (\<forall>r\<in>set (map2 (@) A (identity_rows n)). dot r (x @ replicate (n + n - n) 0) = 0)"
proof (rule gj_iter_invariant [where L = "n + n"])
  show "n \<le> n + n" by simp
  show "length (map2 (@) A (identity_rows n)) = n"
    by (rule augmented_rows(1) [OF assms(1)])
  show "\<forall>r\<in>set (map2 (@) A (identity_rows n)). length r = n + n"
    by (rule gj_start [OF assms])
  show "unit_cols 0 (map2 (@) A (identity_rows n))"
    by (simp add: unit_cols_def)
  show "0 + n = n" by simp
  show "\<forall>w. (\<forall>r\<in>set (map2 (@) A (identity_rows n)). dot r w = 0)
       \<longleftrightarrow> (\<forall>r\<in>set (map2 (@) A (identity_rows n)). dot r w = 0)" by simp
qed

lemma gj_fail:
  assumes "length A = n" and "\<forall>r\<in>set A. length r = n"
    and "gj_iter n 0 (map2 (@) A (identity_rows n)) = None"
  shows "\<exists>x. length x = n \<and> x \<noteq> replicate n 0 \<and> (\<forall>r\<in>set A. dot r x = 0)"
proof -
  from gj_iter_start [OF assms(1,2)] assms(3)
  obtain x where x: "length x = n" "x \<noteq> replicate n 0"
    "\<forall>r\<in>set (map2 (@) A (identity_rows n)). dot r (x @ replicate n 0) = 0"
    by auto
  from x(3) have "\<forall>i<n. dot (A ! i) x + replicate n 0 ! i = 0"
    using augmented_kernel [OF assms(1,2) x(1), of "replicate n 0"] by simp
  then have "\<forall>i<n. dot (A ! i) x = 0" by simp
  then have "\<forall>r\<in>set A. dot r x = 0"
    unfolding all_set_conv_all_nth assms(1) .
  with x(1,2) show ?thesis by blast
qed

lemma gj_result:
  assumes "length A = n" and "\<forall>r\<in>set A. length r = n"
    and "gj_iter n 0 (map2 (@) A (identity_rows n)) = Some rs'"
  shows "length rs' = n" and "\<forall>r\<in>set rs'. length r = n + n"
    and "\<And>k j. k < n \<Longrightarrow> j < n \<Longrightarrow>
           dot (drop n (rs' ! k)) (column A j) = (if k = j then 1 else 0)"
    and "\<And>i j. i < n \<Longrightarrow> j < n \<Longrightarrow>
           dot (A ! i) (column (map (drop n) rs') j) = (if i = j then 1 else 0)"
proof -
  from gj_iter_start [OF assms(1,2)] assms(3)
  have l: "length rs' = n" and ll: "\<forall>r\<in>set rs'. length r = n + n" and u: "unit_cols n rs'"
    and ker: "\<And>w. (\<forall>r\<in>set rs'. dot r w = 0)
               \<longleftrightarrow> (\<forall>r\<in>set (map2 (@) A (identity_rows n)). dot r w = 0)"
    by auto
  show "length rs' = n" by (rule l)
  show "\<forall>r\<in>set rs'. length r = n + n" by (rule ll)
  have eqv: "\<And>x z. length x = n \<Longrightarrow> length z = n \<Longrightarrow>
      (\<forall>k<n. x ! k + dot (drop n (rs' ! k)) z = 0) \<longleftrightarrow> (\<forall>i<n. dot (A ! i) x + z ! i = 0)"
    using reduced_kernel [OF l ll u] augmented_kernel [OF assms(1,2)] ker by simp
  have lA: "\<And>i. i < n \<Longrightarrow> length (A ! i) = n"
    using assms(1,2) by simp
  have lB: "\<And>k. k < n \<Longrightarrow> length (drop n (rs' ! k)) = n"
    using l ll by simp
  {
    fix k j assume k: "k < n" and j: "j < n"
    let ?x = "unit_vec n j" and ?z = "map uminus (column A j)"
    have lx: "length ?x = n" by (simp add: unit_vec_def)
    have lz: "length ?z = n" by (simp add: column_def assms(1))
    have "\<forall>i<n. dot (A ! i) ?x + ?z ! i = 0"
      using j assms(1) by (simp add: dot_unit_vec' lA column_def)
    then have "\<forall>k<n. ?x ! k + dot (drop n (rs' ! k)) ?z = 0"
      using eqv [OF lx lz] by simp
    then have "?x ! k + dot (drop n (rs' ! k)) ?z = 0"
      using k by simp
    then show "dot (drop n (rs' ! k)) (column A j) = (if k = j then 1 else 0)"
      using k by (auto simp: dot_uminus unit_vec_def)
  }
  {
    fix i j assume i: "i < n" and j: "j < n"
    let ?x = "column (map (drop n) rs') j" and ?z = "map uminus (unit_vec n j)"
    have lx: "length ?x = n" by (simp add: column_def l)
    have lz: "length ?z = n" by (simp add: unit_vec_def)
    have "\<forall>k<n. ?x ! k + dot (drop n (rs' ! k)) ?z = 0"
    proof (intro allI impI)
      fix k assume k: "k < n"
      have "dot (drop n (rs' ! k)) (unit_vec n j) = drop n (rs' ! k) ! j"
        by (rule dot_unit_vec' [OF lB [OF k] j])
      moreover have "?x ! k = drop n (rs' ! k) ! j"
        using k l by (simp add: column_def)
      ultimately show "?x ! k + dot (drop n (rs' ! k)) ?z = 0"
        by (simp add: dot_uminus)
    qed
    then have "\<forall>i<n. dot (A ! i) ?x + ?z ! i = 0"
      using eqv [OF lx lz] by simp
    then have "dot (A ! i) ?x + ?z ! i = 0"
      using i by simp
    then show "dot (A ! i) (column (map (drop n) rs') j) = (if i = j then 1 else 0)"
      using i by (auto simp: unit_vec_def)
  }
qed

lemma dot_commute: "dot u v = dot v u"
proof (induction u arbitrary: v)
  case Nil
  then show ?case by simp
next
  case (Cons a u)
  then show ?case by (cases v) simp_all
qed

lemma dot_assoc:
  assumes "length m = length N" and "\<forall>r\<in>set N. length r = q" and "length v = q"
  shows "dot (map (\<lambda>j. dot m (column N j)) [0..<q]) v = dot m (map (\<lambda>r. dot r v) N)"
proof -
  let ?p = "length N"
  have "dot (map (\<lambda>j. dot m (column N j)) [0..<q]) v
      = (\<Sum>j<q. dot m (column N j) * v ! j)"
    using assms(3) by (simp add: dot_sum)
  also have "\<dots> = (\<Sum>j<q. (\<Sum>k<?p. m ! k * N ! k ! j) * v ! j)"
    using assms(1) by (simp add: dot_sum column_def)
  also have "\<dots> = (\<Sum>j<q. \<Sum>k<?p. m ! k * (N ! k ! j * v ! j))"
    by (simp add: sum_distrib_right mult.assoc)
  also have "\<dots> = (\<Sum>k<?p. \<Sum>j<q. m ! k * (N ! k ! j * v ! j))"
    by (rule sum.swap)
  also have "\<dots> = (\<Sum>k<?p. m ! k * (\<Sum>j<q. N ! k ! j * v ! j))"
    by (simp add: sum_distrib_left)
  also have "\<dots> = (\<Sum>k<?p. m ! k * dot (N ! k) v)"
    using assms(2,3) by (simp add: dot_sum)
  also have "\<dots> = dot m (map (\<lambda>r. dot r v) N)"
    using assms(1) by (simp add: dot_sum)
  finally show ?thesis .
qed

lemma dot_self_zero: "dot u u = 0 \<Longrightarrow> u = replicate (length u) 0"
proof (induction u)
  case Nil
  then show ?case by simp
next
  case (Cons a u)
  have n: "0 \<le> dot u u"
    by (induction u) simp_all
  from Cons.prems have "a * a + dot u u = 0" by simp
  with n have "a * a = 0 \<and> dot u u = 0"
    by (smt (verit) zero_le_square)
  with Cons.IH show ?case by simp
qed

lemma dot_zeros_left: "dot (replicate n 0) b = 0"
  by (simp add: dot_commute [of "replicate n 0"] dot_zeros)

lemma gram_dot_mm: "dot_mm (transpose_m X) X = Inr (gram X)"
  by (simp add: dot_mm_def transpose_m_def gram_def o_def)

lemma gram_shape: "wf_matrix (gram X)" "nrows (gram X) = ncols X" "ncols (gram X) = ncols X"
  by (simp_all add: gram_def wf_matrix_def nrows_def list_all_iff)

lemma linalg_inv_sound:
  assumes "wf_matrix A" and "nrows A = ncols A" and "linalg_inv A = Inr B"
  shows "wf_matrix B" and "ncols B = ncols A" and "nrows B = ncols A"
    and "dot_mm B A = Inr (identity_m (ncols A))"
    and "dot_mm A B = Inr (identity_m (ncols A))"
proof -
  let ?n = "ncols A"
  have lA: "length (rows A) = ?n" using assms(2) by (simp add: nrows_def)
  have rA: "\<forall>r\<in>set (rows A). length r = ?n"
    using assms(1) by (simp add: wf_matrix_def list_all_iff)
  from assms(3) obtain rs' where
    g: "gj_iter ?n 0 (map2 (@) (rows A) (identity_rows ?n)) = Some rs'"
    and B: "B = \<lparr>ncols = ?n, rows = map (drop ?n) rs'\<rparr>"
    using assms(2) by (auto simp: linalg_inv_def split: option.splits if_splits)
  note r = gj_result [OF lA rA g]
  show nB: "ncols B = ?n" by (simp add: B)
  show rB: "nrows B = ?n" by (simp add: B nrows_def r(1))
  show "wf_matrix B"
    using r(2) by (simp add: B wf_matrix_def list_all_iff)
  have "map (\<lambda>b. map (\<lambda>j. dot b (column (rows A) j)) [0..<?n]) (map (drop ?n) rs')
      = identity_rows ?n"
  proof (rule nth_equalityI)
    show "length (map (\<lambda>b. map (\<lambda>j. dot b (column (rows A) j)) [0..<?n]) (map (drop ?n) rs'))
        = length (identity_rows ?n)"
      by (simp add: r(1) length_identity_rows)
  next
    fix k assume "k < length (map (\<lambda>b. map (\<lambda>j. dot b (column (rows A) j)) [0..<?n])
        (map (drop ?n) rs'))"
    then have k: "k < ?n" by (simp add: r(1))
    show "map (\<lambda>b. map (\<lambda>j. dot b (column (rows A) j)) [0..<?n]) (map (drop ?n) rs') ! k
        = identity_rows ?n ! k"
      using k r(1) r(3) [OF k] by (simp add: identity_rows_nth unit_vec_def)
  qed
  then show "dot_mm B A = Inr (identity_m ?n)"
    using assms(2) by (simp add: dot_mm_def B identity_m_def)
  have "map (\<lambda>a. map (\<lambda>j. dot a (column (map (drop ?n) rs') j)) [0..<?n]) (rows A)
      = identity_rows ?n"
  proof (rule nth_equalityI)
    show "length (map (\<lambda>a. map (\<lambda>j. dot a (column (map (drop ?n) rs') j)) [0..<?n]) (rows A))
        = length (identity_rows ?n)"
      by (simp add: lA length_identity_rows)
  next
    fix i assume "i < length (map (\<lambda>a. map (\<lambda>j. dot a (column (map (drop ?n) rs') j)) [0..<?n])
        (rows A))"
    then have i: "i < ?n" by (simp add: lA)
    show "map (\<lambda>a. map (\<lambda>j. dot a (column (map (drop ?n) rs') j)) [0..<?n]) (rows A) ! i
        = identity_rows ?n ! i"
      using i lA r(4) [OF i] by (simp add: identity_rows_nth unit_vec_def)
  qed
  then show "dot_mm A B = Inr (identity_m ?n)"
    using rB nB by (simp add: dot_mm_def B identity_m_def nrows_def)
qed

lemma linalg_inv_fail:
  assumes "wf_matrix A" and "nrows A = ncols A" and "linalg_inv A = Inl e"
  shows "e = LinAlgError" and "singular A"
proof -
  let ?n = "ncols A"
  have lA: "length (rows A) = ?n" using assms(2) by (simp add: nrows_def)
  have rA: "\<forall>r\<in>set (rows A). length r = ?n"
    using assms(1) by (simp add: wf_matrix_def list_all_iff)
  from assms(3) show "e = LinAlgError"
    by (auto simp: linalg_inv_def split: option.splits if_splits)
  from assms(3) have "gj_iter ?n 0 (map2 (@) (rows A) (identity_rows ?n)) = None"
    using assms(2) by (auto simp: linalg_inv_def split: option.splits if_splits)
  from gj_fail [OF lA rA this] obtain x where
    x: "length x = ?n" "x \<noteq> replicate ?n 0" "\<forall>r\<in>set (rows A). dot r x = 0"
    by blast
  have "map (\<lambda>r. dot r x) (rows A) = replicate (nrows A) 0"
    using x(3) by (simp add: nrows_def map_replicate_const [symmetric] cong: map_cong)
  then have "dot_mv A x = Inr (replicate (nrows A) 0)"
    using x(1) by (simp add: dot_mv_def)
  with x(2) show "singular A"
    unfolding singular_def by blast
qed

lemma wf_rows: "wf_matrix A \<Longrightarrow> \<forall>r\<in>set (rows A). length r = ncols A"
  by (simp add: wf_matrix_def list_all_iff)

lemma identity_rows_dot: "k < n \<Longrightarrow> length w = n \<Longrightarrow> dot (identity_rows n ! k) w = w ! k"
  by (simp add: identity_rows_nth dot_unit_vec)

text \<open>A matrix with a left inverse sends only the zero vector to zero.\<close>

lemma left_inverse_kernel:
  assumes "wf_matrix A" and "wf_matrix B" and "dot_mm B A = Inr (identity_m (ncols A))"
    and "dot_mv A w = Inr (replicate (nrows A) 0)"
  shows "w = replicate (ncols A) 0"
proof -
  let ?n = "ncols A"
  have lw: "length w = ?n"
    using assms(4) by (simp add: dot_mv_def split: if_splits)
  have Aw: "map (\<lambda>r. dot r w) (rows A) = replicate (nrows A) 0"
    using assms(4) by (simp add: dot_mv_def split: if_splits)
  have nB: "ncols B = nrows A"
    using assms(3) by (simp add: dot_mm_def split: if_splits)
  have prod: "map (\<lambda>b. map (\<lambda>j. dot b (column (rows A) j)) [0..<?n]) (rows B) = identity_rows ?n"
    using assms(3) by (simp add: dot_mm_def identity_m_def split: if_splits)
  then have lB: "length (rows B) = ?n"
    by (metis length_map length_identity_rows)
  show ?thesis
  proof (rule nth_equalityI)
    show "length w = length (replicate ?n (0::real))" using lw by simp
  next
    fix k assume "k < length w"
    then have k: "k < ?n" using lw by simp
    have bk: "length (rows B ! k) = length (rows A)"
      using wf_rows [OF assms(2)] k lB nB by (simp add: nrows_def)
    have "w ! k = dot (identity_rows ?n ! k) w"
      using k lw by (simp add: identity_rows_dot)
    also have "identity_rows ?n ! k = map (\<lambda>j. dot (rows B ! k) (column (rows A) j)) [0..<?n]"
      using prod [symmetric] k lB by simp
    also have "dot \<dots> w = dot (rows B ! k) (map (\<lambda>r. dot r w) (rows A))"
      by (rule dot_assoc [OF bk wf_rows [OF assms(1)] lw])
    also have "\<dots> = 0"
      by (simp add: Aw dot_zeros)
    finally show "w ! k = replicate ?n 0 ! k"
      using k by simp
  qed
qed



lemma transpose_shape:
  "nrows (transpose_m X) = ncols X" "ncols (transpose_m X) = nrows X"
  "\<forall>r\<in>set (rows (transpose_m X)). length r = nrows X" "wf_matrix (transpose_m X)"
  by (simp_all add: transpose_m_def nrows_def column_def wf_matrix_def list_all_iff)


lemma fit_multiple_inverse:
  assumes "length y = nrows X" and "0 < ncols X" and "linalg_inv (gram X) = Inr B"
  shows "\<exists>P theta. dot_mm B (transpose_m X) = Inr P \<and> dot_mv P y = Inr theta \<and>
     length theta = ncols X \<and>
     theta = map (\<lambda>b. dot b (map (\<lambda>r. dot r y) (rows (transpose_m X)))) (rows B) \<and>
     dot_mv (gram X) theta = dot_mv (transpose_m X) y \<and>
     fit_multiple X y s =
       (Inr (), s\<lparr>intercept := Some (theta ! 0), coefficients := Some (drop 1 theta)\<rparr>)"
proof -
  let ?n = "ncols X" and ?T = "transpose_m X"
  let ?u = "map (\<lambda>r. dot r y) (rows ?T)"
  let ?theta = "map (\<lambda>b. dot b ?u) (rows B)"
  let ?P = "\<lparr>ncols = ncols ?T,
      rows = map (\<lambda>b. map (\<lambda>j. dot b (column (rows ?T) j)) [0..<ncols ?T]) (rows B)\<rparr>"
  have sq: "nrows (gram X) = ncols (gram X)" by (simp add: gram_shape)
  note inv = linalg_inv_sound [OF gram_shape(1) sq assms(3)]
  have nB: "ncols B = ?n" "nrows B = ?n"
    using inv(2,3) by (simp_all add: gram_shape)
  have lB: "length (rows B) = ?n" using nB(2) by (simp add: nrows_def)
  have rB: "\<forall>b\<in>set (rows B). length b = ?n"
    using wf_rows [OF inv(1)] nB(1) by simp
  have P: "dot_mm B ?T = Inr ?P"
    by (simp add: dot_mm_def nB transpose_shape)
  have lT: "length (rows ?T) = ?n"
    using transpose_shape(1) [of X] by (simp add: nrows_def)
  have theta: "dot_mv ?P y = Inr ?theta"
  proof -
    have "\<And>b. b \<in> set (rows B) \<Longrightarrow>
        dot (map (\<lambda>j. dot b (column (rows ?T) j)) [0..<nrows X]) y = dot b ?u"
      by (rule dot_assoc) (simp_all add: rB lT transpose_shape assms(1))
    then show ?thesis
      using assms(1) by (simp add: dot_mv_def transpose_shape o_def cong: map_cong)
  qed
  have lth: "length ?theta = ?n" by (simp add: lB)
  have xty: "dot_mv ?T y = Inr ?u"
    using assms(1) by (simp add: dot_mv_def transpose_shape)
  have prod: "map (\<lambda>g. map (\<lambda>j. dot g (column (rows B) j)) [0..<?n]) (rows (gram X))
      = identity_rows ?n"
    using inv(5) by (simp add: dot_mm_def identity_m_def gram_shape nB split: if_splits)
  have lG: "length (rows (gram X)) = ?n"
    using gram_shape(2) [of X] by (simp add: nrows_def)
  have "map (\<lambda>g. dot g ?theta) (rows (gram X)) = ?u"
  proof (rule nth_equalityI)
    show "length (map (\<lambda>g. dot g ?theta) (rows (gram X))) = length ?u"
      by (simp add: lG lT)
  next
    fix i assume "i < length (map (\<lambda>g. dot g ?theta) (rows (gram X)))"
    then have i: "i < ?n" by (simp add: lG)
    have gi: "length (rows (gram X) ! i) = length (rows B)"
      using wf_rows [OF gram_shape(1), of X] i lG lB by (simp add: gram_shape)
    have "dot (rows (gram X) ! i) ?theta
        = dot (map (\<lambda>j. dot (rows (gram X) ! i) (column (rows B) j)) [0..<?n]) ?u"
      by (rule dot_assoc [symmetric, OF gi rB]) (simp add: lT)
    also have "map (\<lambda>j. dot (rows (gram X) ! i) (column (rows B) j)) [0..<?n]
        = identity_rows ?n ! i"
      using prod [symmetric] i lG by simp
    also have "dot (identity_rows ?n ! i) ?u = ?u ! i"
      by (rule identity_rows_dot [OF i]) (simp add: lT)
    finally show "map (\<lambda>g. dot g ?theta) (rows (gram X)) ! i = ?u ! i"
      using i lG by simp
  qed
  then have ne: "dot_mv (gram X) ?theta = dot_mv ?T y"
    by (simp add: xty) (simp add: dot_mv_def gram_shape lB)
  from lth assms(2) obtain t0 ts where tt: "?theta = t0 # ts"
    by (cases ?theta) auto
  have "fit_multiple X y s =
       (Inr (), s\<lparr>intercept := Some (?theta ! 0), coefficients := Some (drop 1 ?theta)\<rparr>)"
    unfolding fit_multiple_def
    by (simp only: gram_dot_mm assms(3) P theta sum.case tt list.case) simp
  with P theta lth ne show ?thesis by blast
qed

lemma gram_row: "i < ncols X \<Longrightarrow>
    rows (gram X) ! i = map (\<lambda>j. dot (column (rows X) i) (column (rows X) j)) [0..<ncols X]"
  by (simp add: gram_def)

text \<open>\<open>(X\<^sup>T X) w = X\<^sup>T (X w)\<close>, entry by entry.\<close>

lemma gram_mv:
  assumes "wf_matrix X" and "length w = ncols X" and "i < ncols X"
  shows "dot (rows (gram X) ! i) w = dot (column (rows X) i) (map (\<lambda>r. dot r w) (rows X))"
  unfolding gram_row [OF assms(3)]
  by (rule dot_assoc [OF _ wf_rows [OF assms(1)] assms(2)]) (simp add: column_def)

lemma gram_kernel:
  assumes "wf_matrix X" and "dot_mv X w = Inr (replicate (nrows X) 0)"
  shows "dot_mv (gram X) w = Inr (replicate (nrows (gram X)) 0)"
proof -
  have lw: "length w = ncols X"
    using assms(2) by (simp add: dot_mv_def split: if_splits)
  have Xw: "map (\<lambda>r. dot r w) (rows X) = replicate (nrows X) 0"
    using assms(2) by (simp add: dot_mv_def split: if_splits)
  have "map (\<lambda>g. dot g w) (rows (gram X)) = replicate (ncols X) 0"
  proof (rule nth_equalityI)
    show "length (map (\<lambda>g. dot g w) (rows (gram X))) = length (replicate (ncols X) (0::real))"
      by (simp add: gram_def)
  next
    fix i assume "i < length (map (\<lambda>g. dot g w) (rows (gram X)))"
    then have i: "i < ncols X" by (simp add: gram_def)
    then have "map (\<lambda>g. dot g w) (rows (gram X)) ! i = dot (rows (gram X) ! i) w"
      by (simp add: gram_def)
    also have "\<dots> = 0"
      by (simp add: gram_mv [OF assms(1) lw i] Xw dot_zeros)
    finally show "map (\<lambda>g. dot g w) (rows (gram X)) ! i = replicate (ncols X) 0 ! i"
      using i by simp
  qed
  then show ?thesis
    using lw by (simp add: dot_mv_def gram_shape)
qed

lemma inverse_full_rank:
  assumes "wf_matrix X" and "linalg_inv (gram X) = Inr B"
  shows "full_column_rank X"
  unfolding full_column_rank_def
proof (intro allI impI)
  fix w assume "dot_mv X w = Inr (replicate (nrows X) 0)"
  then have k: "dot_mv (gram X) w = Inr (replicate (nrows (gram X)) 0)"
    by (rule gram_kernel [OF assms(1)])
  have sq: "nrows (gram X) = ncols (gram X)" by (simp add: gram_shape)
  note inv = linalg_inv_sound [OF gram_shape(1) sq assms(2)]
  from left_inverse_kernel [OF gram_shape(1) inv(1) inv(4) k]
  show "w = replicate (ncols X) 0" by (simp add: gram_shape)
qed

lemma full_rank_gram:
  assumes "wf_matrix X" and "full_column_rank X"
  shows "\<not> singular (gram X)"
proof
  assume "singular (gram X)"
  then obtain w where w: "w \<noteq> replicate (ncols X) 0"
    and Gw: "dot_mv (gram X) w = Inr (replicate (ncols X) 0)"
    by (auto simp: singular_def gram_shape)
  have lw: "length w = ncols X"
    using Gw by (simp add: dot_mv_def gram_shape split: if_splits)
  have g0: "map (\<lambda>g. dot g w) (rows (gram X)) = replicate (ncols X) 0"
    using Gw by (simp add: dot_mv_def split: if_splits)
  let ?u = "map (\<lambda>r. dot r w) (rows X)"
  have gi: "\<And>i. i < ncols X \<Longrightarrow> dot (column (rows X) i) ?u = 0"
  proof -
    fix i assume i: "i < ncols X"
    have "dot (column (rows X) i) ?u = dot (rows (gram X) ! i) w"
      by (rule gram_mv [symmetric, OF assms(1) lw i])
    also have "\<dots> = map (\<lambda>g. dot g w) (rows (gram X)) ! i"
      using i by (simp add: gram_def)
    also have "\<dots> = 0" using i by (simp add: g0)
    finally show "dot (column (rows X) i) ?u = 0" .
  qed
  have "dot ?u ?u = dot (map (\<lambda>j. dot ?u (column (rows X) j)) [0..<ncols X]) w"
    by (rule dot_assoc [symmetric, OF _ wf_rows [OF assms(1)] lw]) simp
  also have "map (\<lambda>j. dot ?u (column (rows X) j)) [0..<ncols X] = replicate (ncols X) 0"
    by (rule nth_equalityI) (simp_all add: dot_commute [of ?u] gi)
  also have "dot (replicate (ncols X) 0) w = 0"
    by (rule dot_zeros_left)
  finally have "?u = replicate (length ?u) 0"
    by (rule dot_self_zero)
  then have "dot_mv X w = Inr (replicate (nrows X) 0)"
    using lw by (simp add: dot_mv_def nrows_def)
  with assms(2) have "w = replicate (ncols X) 0"
    by (simp add: full_column_rank_def)
  with w show False by simp
qed

section \<open>Properties of the closed-form fit\<close>

lemma with_bias_shape:
  "nrows (insert_ones M) = nrows M" "ncols (insert_ones M) = Suc (ncols M)"
  by (simp_all add: insert_ones_def nrows_def)

lemma wf_with_bias: "wf_ndarray X \<Longrightarrow> wf_matrix (insert_ones (as_2d X))"
  by (cases X)
     (simp_all add: wf_ndarray_def wf_matrix_def insert_ones_def as_2d_def reshape_col_def
        list_all_iff)

lemma fit_least_squares:
  "fit X y ''least_squares'' learning_rate iterations rnd s =
     (case fit_multiple (insert_ones (as_2d X)) y s of
        (Inl e, s') \<Rightarrow> (Inl e, s')
      | (Inr u, s') \<Rightarrow> (Inr NoneResult, s'))"
  by (simp add: fit_def)

lemma predict_with_bias:
  "coefficients s = Some w \<Longrightarrow> intercept s = Some b \<Longrightarrow>
   predict X s = dot_mv (insert_ones (as_2d X)) (b # w)"
  by (cases X) (simp_all add: predict_def as_2d_def)




lemma column_space_solution:
  assumes "wf_matrix X" and "0 < ncols X" and "linalg_inv (gram X) = Inr B"
    and "dot_mv X theta0 = Inr y"
  shows "map (\<lambda>b. dot b (map (\<lambda>r. dot r y) (rows (transpose_m X)))) (rows B) = theta0"
proof -
  let ?n = "ncols X" and ?G = "gram X"
  have l0: "length theta0 = ?n"
    using assms(4) by (simp add: dot_mv_def split: if_splits)
  have y: "y = map (\<lambda>r. dot r theta0) (rows X)"
    using assms(4) by (simp add: dot_mv_def split: if_splits)
  have sq: "nrows ?G = ncols ?G" by (simp add: gram_shape)
  note inv = linalg_inv_sound [OF gram_shape(1) sq assms(3)]
  have lB: "length (rows B) = ?n"
    using inv(3) by (simp add: nrows_def gram_shape)
  have rB: "\<forall>b\<in>set (rows B). length b = ?n"
    using wf_rows [OF inv(1)] inv(2) by (simp add: gram_shape)
  have lG: "length (rows ?G) = ?n"
    using gram_shape(2) [of X] by (simp add: nrows_def)
  have rG: "\<forall>g\<in>set (rows ?G). length g = ?n"
    using wf_rows [OF gram_shape(1), of X] by (simp add: gram_shape)
  have u: "map (\<lambda>r. dot r y) (rows (transpose_m X)) = map (\<lambda>g. dot g theta0) (rows ?G)"
  proof (rule nth_equalityI)
    show "length (map (\<lambda>r. dot r y) (rows (transpose_m X)))
        = length (map (\<lambda>g. dot g theta0) (rows ?G))"
      by (simp add: lG transpose_m_def)
  next
    fix i assume "i < length (map (\<lambda>r. dot r y) (rows (transpose_m X)))"
    then have i: "i < ?n" by (simp add: transpose_m_def)
    have "map (\<lambda>r. dot r y) (rows (transpose_m X)) ! i = dot (column (rows X) i) y"
      using i by (simp add: transpose_m_def)
    also have "\<dots> = dot (rows ?G ! i) theta0"
      unfolding y by (rule gram_mv [symmetric, OF assms(1) l0 i])
    finally show "map (\<lambda>r. dot r y) (rows (transpose_m X)) ! i
        = map (\<lambda>g. dot g theta0) (rows ?G) ! i"
      using i lG by simp
  qed
  have prod: "map (\<lambda>b. map (\<lambda>j. dot b (column (rows ?G) j)) [0..<?n]) (rows B) = identity_rows ?n"
    using inv(4) by (simp add: dot_mm_def identity_m_def gram_shape split: if_splits)
  show ?thesis
    unfolding u
  proof (rule nth_equalityI)
    show "length (map (\<lambda>b. dot b (map (\<lambda>g. dot g theta0) (rows ?G))) (rows B)) = length theta0"
      by (simp add: lB l0)
  next
    fix k assume "k < length (map (\<lambda>b. dot b (map (\<lambda>g. dot g theta0) (rows ?G))) (rows B))"
    then have k: "k < ?n" by (simp add: lB)
    have bk: "length (rows B ! k) = length (rows ?G)"
      using rB k lB lG by simp
    have "dot (rows B ! k) (map (\<lambda>g. dot g theta0) (rows ?G))
        = dot (map (\<lambda>j. dot (rows B ! k) (column (rows ?G) j)) [0..<?n]) theta0"
      by (rule dot_assoc [symmetric, OF bk rG l0])
    also have "map (\<lambda>j. dot (rows B ! k) (column (rows ?G) j)) [0..<?n] = identity_rows ?n ! k"
      using prod [symmetric] k lB by simp
    also have "dot (identity_rows ?n ! k) theta0 = theta0 ! k"
      by (rule identity_rows_dot [OF k l0])
    finally show "map (\<lambda>b. dot b (map (\<lambda>g. dot g theta0) (rows ?G))) (rows B) ! k = theta0 ! k"
      using k lB by simp
  qed
qed

lemma sample_inv: "linalg_inv (gram (insert_ones (as_2d (Arr1 [1, 2, 3, 4]))))
     = Inr \<lparr>ncols = 2, rows = [[3 / 2, - (1 / 2)], [- (1 / 2), 1 / 5]]\<rparr>"
  by code_simp


lemma cex_inv: "linalg_inv (gram (insert_ones (as_2d (Arr1 [0, 1, 2]))))
     = Inr \<lparr>ncols = 2, rows = [[5 / 6, - (1 / 2)], [- (1 / 2), 1 / 2]]\<rparr>"
  by code_simp




text \<open>
  Claim C3, as stated, fails: least squares reproduces \<open>y\<close> only when \<open>y\<close> is a combination
  of the columns of \<open>[1 | X]\<close>. For \<open>X = [0, 1, 2]\<close> (full column rank) and \<open>y = [0, 1, 0]\<close> the
  fit is the constant \<open>1/3\<close>.
\<close>

theorem fit_then_predict_counterexample:
  "full_column_rank (insert_ones (as_2d (Arr1 [0, 1, 2]))) \<and>
   fit (Arr1 [0, 1, 2]) [0, 1, 0] ''least_squares'' (1 / 100) 1000 (\<lambda>i. 0) init
     = (Inr NoneResult, \<lparr>coefficients = Some [0], intercept = Some (1 / 3), stdout = []\<rparr>) \<and>
   predict (Arr1 [0, 1, 2]) \<lparr>coefficients = Some [0], intercept = Some (1 / 3), stdout = []\<rparr>
     = Inr [1 / 3, 1 / 3, 1 / 3] \<and>
   [1 / 3, 1 / 3, 1 / 3] \<noteq> [0, 1, 0 :: real]"
proof -
  have "wf_matrix (insert_ones (as_2d (Arr1 [0, 1, 2])))"
    by (rule wf_with_bias) (simp add: wf_ndarray_def)
  then have "full_column_rank (insert_ones (as_2d (Arr1 [0, 1, 2])))"
    using cex_inv by (rule inverse_full_rank)
  moreover have "fit (Arr1 [0, 1, 2]) [0, 1, 0] ''least_squares'' (1 / 100) 1000 (\<lambda>i. 0) init
     = (Inr NoneResult, \<lparr>coefficients = Some [0], intercept = Some (1 / 3), stdout = []\<rparr>)"
    by code_simp
  moreover have "predict (Arr1 [0, 1, 2])
      \<lparr>coefficients = Some [0], intercept = Some (1 / 3), stdout = []\<rparr>
     = Inr [1 / 3, 1 / 3, 1 / 3]"
    by code_simp
  ultimately show ?thesis by simp
qed

text \<open>
  Claim C3, amended. For every well-formed \<open>X\<close> whose bias-augmented matrix \<open>[1 | X]\<close> has
  full column rank, and every \<open>y\<close> in the column space of \<open>[1 | X]\<close> (\<open>y = [1 | X] \<cdot> theta0\<close> for
  some \<open>theta0\<close>), the closed-form fit succeeds and \<open>predict\<close> on the same \<open>X\<close> returns exactly
  \<open>y\<close>.
\<close>

theorem fit_then_predict_in_column_space:
  assumes "Xb = insert_ones (as_2d X)" and "wf_ndarray X" and "full_column_rank Xb"
    and "dot_mv Xb theta0 = Inr y"
  shows "\<exists>s'. fit X y ''least_squares'' learning_rate iterations rnd s = (Inr NoneResult, s') \<and>
           predict X s' = Inr y"
proof -
  have wf: "wf_matrix Xb" using assms(1,2) by (simp add: wf_with_bias)
  have pos: "0 < ncols Xb" by (simp add: assms(1) with_bias_shape)
  have ly: "length y = nrows Xb"
    using assms(4) by (auto simp: dot_mv_def nrows_def split: if_splits)
  have l0: "length theta0 = ncols Xb"
    using assms(4) by (simp add: dot_mv_def split: if_splits)
  have sq: "nrows (gram Xb) = ncols (gram Xb)" by (simp add: gram_shape)
  have ns: "\<not> singular (gram Xb)" by (rule full_rank_gram [OF wf assms(3)])
  obtain B where B: "linalg_inv (gram Xb) = Inr B"
  proof (cases "linalg_inv (gram Xb)")
    case (Inl e)
    from linalg_inv_fail(2) [OF gram_shape(1) sq Inl] ns show ?thesis by simp
  next
    case (Inr B)
    then show ?thesis by (rule that)
  qed
  from fit_multiple_inverse [OF ly pos B, of s]
  obtain theta where th: "theta = map (\<lambda>b. dot b (map (\<lambda>r. dot r y) (rows (transpose_m Xb)))) (rows B)"
    and f: "fit_multiple Xb y s =
       (Inr (), s\<lparr>intercept := Some (theta ! 0), coefficients := Some (drop 1 theta)\<rparr>)"
    by blast
  have t0: "theta = theta0"
    unfolding th by (rule column_space_solution [OF wf pos B assms(4)])
  let ?s = "s\<lparr>intercept := Some (theta0 ! 0), coefficients := Some (drop 1 theta0)\<rparr>"
  have r: "fit X y ''least_squares'' learning_rate iterations rnd s = (Inr NoneResult, ?s)"
    using f by (simp add: fit_least_squares assms(1) [symmetric] t0)
  have c: "theta0 ! 0 # drop 1 theta0 = theta0"
    using l0 pos by (cases theta0) simp_all
  have "predict X ?s = dot_mv Xb (theta0 ! 0 # drop 1 theta0)"
    unfolding assms(1) by (rule predict_with_bias) simp_all
  then have "predict X ?s = Inr y"
    unfolding c assms(4) .
  with r show ?thesis by blast
qed

theorem fit_then_predict_in_column_space_witness:
  "wf_ndarray (Arr1 [1, 2, 3, 4]) \<and>
   full_column_rank (insert_ones (as_2d (Arr1 [1, 2, 3, 4]))) \<and>
   dot_mv (insert_ones (as_2d (Arr1 [1, 2, 3, 4]))) [0, 2] = Inr [2, 4, 6, 8] \<and>
   (\<exists>s'. fit (Arr1 [1, 2, 3, 4]) [2, 4, 6, 8] ''least_squares'' (1 / 100) 1000 (\<lambda>i. 0) init
            = (Inr NoneResult, s') \<and>
         predict (Arr1 [1, 2, 3, 4]) s' = Inr [2, 4, 6, 8])"
proof -
  have h2: "wf_ndarray (Arr1 [1, 2, 3, 4])"
    by (simp add: wf_ndarray_def)
  have h3: "full_column_rank (insert_ones (as_2d (Arr1 [1, 2, 3, 4])))"
    by (rule inverse_full_rank [OF wf_with_bias [OF h2] sample_inv])
  have h4: "dot_mv (insert_ones (as_2d (Arr1 [1, 2, 3, 4]))) [0, 2] = Inr [2, 4, 6, 8]"
    by code_simp
  from fit_then_predict_in_column_space [OF refl h2 h3 h4, of "1 / 100" 1000 "\<lambda>i. 0" init]
    h2 h3 h4
  show ?thesis by blast
qed



end
